theory Spec2Isabelle
  imports Main
begin

section \<open>JavaScript values the compiler scope relies on\<close>

text \<open>
  The code generator of the template compiler is the class \<open>CompileScope\<close> of
  \<^verbatim>\<open>src/codegen/scope.ts\<close> together with its private \<open>SymbolGenerator\<close>, and the
  expression tokenizer is the acorn plugin of \<^verbatim>\<open>src/parser/expression/acorn-plugin.ts\<close>.
  The sources hold two copies of \<^verbatim>\<open>scope.ts\<close>; the model follows the later one, which
  has the component imports, the helpers and the warnings, and whose \<open>SymbolGenerator\<close>,
  \<open>updateSymbol\<close>, \<open>enterFunction\<close>, \<open>exitFunction\<close> and \<open>markScopeAsUsed\<close> are those
  of the earlier copy word for word.
  Strings are \<open>string\<close>; a \<open>SourceNode\<close> is modelled by the text it renders to (the
  position mapping is not modelled); counters are natural numbers (the source counts in
  IEEE doubles, which are exact below \<open>2^53\<close>).
\<close>

subsection \<open>Numbers as text\<close>

text \<open>\<open>String(n)\<close> for a non-negative integer \<open>n\<close>: its decimal digits.\<close>

definition digit_char :: "nat \<Rightarrow> char" where
  "digit_char d = ''0123456789'' ! d"

function dec :: "nat \<Rightarrow> string" where
  "dec n = (if n < 10 then [digit_char n] else dec (n div 10) @ [digit_char (n mod 10)])"
  by pat_completeness auto
termination
  by (relation "measure (\<lambda>n. n)") auto

declare dec.simps [simp del]

definition is_digit :: "char \<Rightarrow> bool" where
  "is_digit c = (c \<in> set ''0123456789'')"

text \<open>
  The value a counter slot of \<open>SymbolGenerator._symbols\<close> can hold, and what
  \<open>generate\<close> can read back as \<open>num\<close>: a number, \<open>NaN\<close> (the result of \<open>++\<close> on
  a function inherited from \<open>Object.prototype\<close>), or \<open>Object.prototype\<close> itself
  (what reading \<open>__proto__\<close> gives).
\<close>

datatype jsnum = Num nat | NaN | ObjectPrototype

fun num_str :: "jsnum \<Rightarrow> string" where
  "num_str (Num n) = dec n"
| "num_str NaN = ''NaN''"
| "num_str ObjectPrototype = ''[object Object]''"

text \<open>The postfix increment \<open>x++\<close> on a stored slot.\<close>

fun incr :: "jsnum \<Rightarrow> jsnum" where
  "incr (Num n) = Num (Suc n)"
| "incr NaN = NaN"
| "incr ObjectPrototype = NaN"

text \<open>
  \<open>_symbols\<close> and \<open>updateDeclarations\<close> are plain object literals \<open>{}\<close>, and the source
  tests membership with the \<open>in\<close> operator, which also sees the properties every plain
  object inherits from \<open>Object.prototype\<close>.
\<close>

definition Object_prototype_keys :: "string list" where
  "Object_prototype_keys =
     [''constructor'', ''__defineGetter__'', ''__defineSetter__'', ''hasOwnProperty'',
      ''__lookupGetter__'', ''__lookupSetter__'', ''isPrototypeOf'', ''propertyIsEnumerable'',
      ''toString'', ''valueOf'', ''__proto__'', ''toLocaleString'']"

definition inherited :: "string \<Rightarrow> bool" where
  "inherited k = (k \<in> set Object_prototype_keys)"

text \<open>
  The result of reading a property of a plain object whose own properties are strings:
  the own value, the inherited member, or \<open>undefined\<close>.
\<close>

datatype jsval = Undefined | Str string | ProtoMember string

definition lookup_prop :: "(string \<rightharpoonup> string) \<Rightarrow> string \<Rightarrow> jsval" where
  "lookup_prop obj k =
     (case obj k of
        Some v \<Rightarrow> Str v
      | None \<Rightarrow> if inherited k then ProtoMember k else Undefined)"

text \<open>\<open>!!x\<close> for an optional string: \<open>undefined\<close> and the empty string are falsy.\<close>

fun truthy :: "string option \<Rightarrow> bool" where
  "truthy None = False"
| "truthy (Some s) = (s \<noteq> [])"

section \<open>SymbolGenerator\<close>

text \<open>
  A prefix or suffix is a string or a function of the number (\<open>_getPart\<close>); anything
  else contributes the empty string.
\<close>

datatype part = PString string | PFunction "jsnum \<Rightarrow> string" | POther

fun getPart :: "jsnum \<Rightarrow> part \<Rightarrow> string" where
  "getPart num (PFunction g) = g num"
| "getPart num (PString s) = s"
| "getPart num POther = []"

definition numGenerator :: part where
  "numGenerator = PFunction num_str"

record SymbolGenerator =
  gen_prefix :: part
  gen_suffix :: part
  symbols :: "string \<rightharpoonup> jsnum"

definition new_SymbolGenerator :: "part \<Rightarrow> part \<Rightarrow> SymbolGenerator" where
  "new_SymbolGenerator p s = \<lparr> gen_prefix = p, gen_suffix = s, symbols = Map.empty \<rparr>"

text \<open>
  \<open>generate(name)\<close>: \<open>name in this._symbols\<close> holds for an own slot and for an inherited
  key. An own slot is incremented. An inherited key is incremented too: the function
  it names becomes \<open>NaN\<close>, stored as an own slot, except for \<open>__proto__\<close>, whose setter
  ignores the number, so that reading it back gives \<open>Object.prototype\<close>. Any other name
  starts at 0.
\<close>

definition generate :: "SymbolGenerator \<Rightarrow> string \<Rightarrow> SymbolGenerator \<times> string" where
  "generate g name =
     (let (tab, num) =
        (case symbols g name of
           Some c \<Rightarrow> ((symbols g)(name \<mapsto> incr c), incr c)
         | None \<Rightarrow>
             if name = ''__proto__'' then (symbols g, ObjectPrototype)
             else if inherited name then ((symbols g)(name \<mapsto> NaN), NaN)
             else ((symbols g)(name \<mapsto> Num 0), Num 0))
      in (g\<lparr>symbols := tab\<rparr>,
          getPart num (gen_prefix g) @ name @ getPart num (gen_suffix g)))"

text \<open>A run of requests on one generator, with the symbols returned in order.\<close>

fun generate_all :: "SymbolGenerator \<Rightarrow> string list \<Rightarrow> SymbolGenerator \<times> string list" where
  "generate_all g [] = (g, [])"
| "generate_all g (n # ns) =
     (let (g1, t) = generate g n; (g2, ts) = generate_all g1 ns in (g2, t # ts))"

section \<open>CompileScope\<close>

subsection \<open>Data\<close>

abbreviation NL :: string where "NL \<equiv> [CHR 0x0A]"

abbreviation DQ :: string where "DQ \<equiv> [CHR 0x22]"

text \<open>\<open>Array.prototype.join\<close> on strings.\<close>

fun join :: "string \<Rightarrow> string list \<Rightarrow> string" where
  "join sep [] = []"
| "join sep [x] = x"
| "join sep (x # y # ys) = x @ sep @ join sep (y # ys)"

text \<open>A \<open>Set\<close> keeps its members in insertion order; a \<open>Map\<close> keeps its keys so.\<close>

definition set_add :: "'a \<Rightarrow> 'a list \<Rightarrow> 'a list" where
  "set_add x xs = (if x \<in> set xs then xs else xs @ [x])"

fun map_set :: "'k \<Rightarrow> 'v \<Rightarrow> ('k \<times> 'v) list \<Rightarrow> ('k \<times> 'v) list" where
  "map_set k v [] = [(k, v)]"
| "map_set k v ((k', v') # r) = (if k' = k then (k, v) # r else (k', v') # map_set k v r)"

datatype RuntimeSymbols =
    R_get | R_mountBlock | R_updateBlock | R_mountIterator | R_updateIterator
  | R_mountKeyIterator | R_updateKeyIterator | R_createInjector | R_block | R_setAttribute
  | R_addClass | R_finalizeAttributes | R_addEvent | R_addStaticEvent | R_finalizeEvents
  | R_mountSlot | R_setRef | R_setStaticRef | R_finalizeRefs | R_createComponent
  | R_mountComponent | R_updateComponent | R_mountInnerHTML | R_updateInnerHTML
  | R_mountPartial | R_updatePartial | R_elem | R_elemWithText | R_elemNS
  | R_elemNSWithText | R_text | R_updateText | R_filter | R_insert | R_subscribeStore

text \<open>The reverse mapping \<open>RuntimeSymbols[symbol]\<close> of the enum.\<close>

fun RuntimeSymbols_name :: "RuntimeSymbols \<Rightarrow> string" where
  "RuntimeSymbols_name R_get = ''get''"
| "RuntimeSymbols_name R_mountBlock = ''mountBlock''"
| "RuntimeSymbols_name R_updateBlock = ''updateBlock''"
| "RuntimeSymbols_name R_mountIterator = ''mountIterator''"
| "RuntimeSymbols_name R_updateIterator = ''updateIterator''"
| "RuntimeSymbols_name R_mountKeyIterator = ''mountKeyIterator''"
| "RuntimeSymbols_name R_updateKeyIterator = ''updateKeyIterator''"
| "RuntimeSymbols_name R_createInjector = ''createInjector''"
| "RuntimeSymbols_name R_block = ''block''"
| "RuntimeSymbols_name R_setAttribute = ''setAttribute''"
| "RuntimeSymbols_name R_addClass = ''addClass''"
| "RuntimeSymbols_name R_finalizeAttributes = ''finalizeAttributes''"
| "RuntimeSymbols_name R_addEvent = ''addEvent''"
| "RuntimeSymbols_name R_addStaticEvent = ''addStaticEvent''"
| "RuntimeSymbols_name R_finalizeEvents = ''finalizeEvents''"
| "RuntimeSymbols_name R_mountSlot = ''mountSlot''"
| "RuntimeSymbols_name R_setRef = ''setRef''"
| "RuntimeSymbols_name R_setStaticRef = ''setStaticRef''"
| "RuntimeSymbols_name R_finalizeRefs = ''finalizeRefs''"
| "RuntimeSymbols_name R_createComponent = ''createComponent''"
| "RuntimeSymbols_name R_mountComponent = ''mountComponent''"
| "RuntimeSymbols_name R_updateComponent = ''updateComponent''"
| "RuntimeSymbols_name R_mountInnerHTML = ''mountInnerHTML''"
| "RuntimeSymbols_name R_updateInnerHTML = ''updateInnerHTML''"
| "RuntimeSymbols_name R_mountPartial = ''mountPartial''"
| "RuntimeSymbols_name R_updatePartial = ''updatePartial''"
| "RuntimeSymbols_name R_elem = ''elem''"
| "RuntimeSymbols_name R_elemWithText = ''elemWithText''"
| "RuntimeSymbols_name R_elemNS = ''elemNS''"
| "RuntimeSymbols_name R_elemNSWithText = ''elemNSWithText''"
| "RuntimeSymbols_name R_text = ''text''"
| "RuntimeSymbols_name R_updateText = ''updateText''"
| "RuntimeSymbols_name R_filter = ''filter''"
| "RuntimeSymbols_name R_insert = ''insert''"
| "RuntimeSymbols_name R_subscribeStore = ''subscribeStore''"

text \<open>
  \<open>this.options\<close>, the result of \<open>Object.assign({}, defaultOptions, options)\<close>: the
  fields \<open>defaultOptions\<close> fills are always present; \<open>cssScope\<close>,
  \<open>removeUnusedImports\<close> and \<open>warn\<close> are present only when the caller gave them.
  \<open>opt_warn\<close> says whether a \<open>warn\<close> callback is configured.
\<close>

record CompileScopeOptions =
  opt_module :: string
  opt_host :: string
  opt_scope :: string
  opt_partials :: string
  opt_cssScope :: "string option"
  opt_helpers :: "(string \<times> string list) list"
  opt_component :: string
  opt_indent :: string
  opt_prefix :: string
  opt_suffix :: string
  opt_removeUnusedImports :: bool
  opt_warn :: bool

text \<open>The caller's \<open>options\<close> argument: every field is optional.\<close>

record UserOptions =
  u_module :: "string option"
  u_host :: "string option"
  u_scope :: "string option"
  u_partials :: "string option"
  u_cssScope :: "string option"
  u_helpers :: "(string \<times> string list) list option"
  u_component :: "string option"
  u_indent :: "string option"
  u_prefix :: "string option"
  u_suffix :: "string option"
  u_removeUnusedImports :: "bool option"
  u_warn :: bool

definition default_helpers :: "(string \<times> string list) list" where
  "default_helpers = [(''endorphin/helpers.js'', [''emit'', ''setState'', ''setStore''])]"

fun or_default :: "'a option \<Rightarrow> 'a \<Rightarrow> 'a" where
  "or_default None d = d"
| "or_default (Some x) d = x"

definition assign_options :: "UserOptions \<Rightarrow> CompileScopeOptions" where
  "assign_options u =
     \<lparr> opt_module = or_default (u_module u) ''@endorphinjs/endorphin'',
       opt_host = or_default (u_host u) ''host'',
       opt_scope = or_default (u_scope u) ''scope'',
       opt_partials = or_default (u_partials u) ''partials'',
       opt_cssScope = u_cssScope u,
       opt_helpers = or_default (u_helpers u) default_helpers,
       opt_component = or_default (u_component u) [],
       opt_indent = or_default (u_indent u) [CHR 0x09],
       opt_prefix = or_default (u_prefix u) ''$$'',
       opt_suffix = or_default (u_suffix u) [],
       opt_removeUnusedImports = or_default (u_removeUnusedImports u) False,
       opt_warn = u_warn u \<rparr>"

text \<open>
  \<open>ElementStats\<close> and \<open>ElementContext\<close> are declared in files outside this model;
  the scope reads the truth values of \<open>stats.staticContent\<close> and \<open>stats.slotContent\<close>,
  the element's \<open>name\<close>, its two injector symbols and its \<open>parent\<close>. The open elements
  of a function form a chain through \<open>parent\<close>: a list, innermost first.
\<close>

record ElementStats =
  staticContent :: bool
  slotContent :: bool

record ElementContext =
  el_name :: string
  stats :: ElementStats
  el_localInjector :: string
  el_scopeInjector :: string

text \<open>
  A \<open>FunctionContext\<close>. \<open>scopeArg\<close> is the children of the placeholder
  \<open>SourceNode\<close>; \<open>updateDeclarations\<close> holds the own properties of the object. The
  \<open>parent\<close> link is the rest of the stack \<open>func\<close> of the scope.
\<close>

record FunctionContext =
  update :: "string list"
  localSymbols :: SymbolGenerator
  updateSymbols :: SymbolGenerator
  updateDeclarations :: "string \<rightharpoonup> string"
  symbol :: string
  injector :: "string option"
  scopeArg :: "string list"
  element :: "ElementContext list"

record PartialDeclaration =
  p_name :: string
  p_defaults :: string

text \<open>\<open>node_pos\<close> is \<open>node.loc.start.pos\<close> of the import's source node.\<close>

record ComponentImport =
  c_symbol :: string
  href :: string
  node_pos :: nat
  used :: bool

text \<open>
  The scope. \<open>func\<close> is the stack of function contexts, current first (empty when
  \<open>this.func\<close> is undefined). \<open>warn_calls\<close> is not a field of the class: it records
  the calls the configured \<open>warn\<close> callback has received, in order.
\<close>

record CompileScope =
  runtimeSymbols :: "RuntimeSymbols list"
  usedHelpers :: "string list"
  scopeSymbols :: SymbolGenerator
  globalSymbols :: SymbolGenerator
  func :: "FunctionContext list"
  options :: CompileScopeOptions
  body :: "string list"
  partialsMap :: "(string \<times> PartialDeclaration) list"
  componentsMap :: "(string \<times> ComponentImport) list"
  namespacesMap :: "(string \<times> string) list"
  namespaceStack :: "string list"
  usedStore :: "string list"
  helpers :: "string \<rightharpoonup> string"
  warned :: "string list"
  warn_calls :: "(string \<times> nat) list"

datatype error = TypeError

subsection \<open>Construction\<close>

text \<open>
  \<open>tagToJS\<close> and \<open>reverseObject\<close> come from \<^verbatim>\<open>./utils\<close> and are parameters. The
  prefix of the scope generator is the function \<open>() => `${this.scope}.$_`\<close>; the mark
  its getter leaves on the current function is applied in \<open>scopeSymbol\<close> below.
\<close>

definition new_CompileScope ::
  "(string \<Rightarrow> bool \<Rightarrow> string) \<Rightarrow> ((string \<times> string list) list \<Rightarrow> (string \<times> string) list)
    \<Rightarrow> UserOptions \<Rightarrow> CompileScope" where
  "new_CompileScope tagToJS reverseObject u =
     (let opts = assign_options u;
          sfx = tagToJS (opt_component opts) True @ opt_suffix opts
      in \<lparr> runtimeSymbols = [],
           usedHelpers = [],
           scopeSymbols = new_SymbolGenerator (PFunction (\<lambda>_. opt_scope opts @ ''.$_'')) numGenerator,
           globalSymbols =
             new_SymbolGenerator (PString (opt_prefix opts)) (PFunction (\<lambda>num. sfx @ num_str num)),
           func = [],
           options = opts,
           body = [],
           partialsMap = [],
           componentsMap = [],
           namespacesMap = [],
           namespaceStack = [],
           usedStore = [],
           helpers = map_of (reverseObject default_helpers) ++ map_of (reverseObject (opt_helpers opts)),
           warned = [],
           warn_calls = [] \<rparr>)"

subsection \<open>Symbols\<close>

definition markScopeAsUsed :: "CompileScope \<Rightarrow> CompileScope" where
  "markScopeAsUsed s =
     (case func s of
        [] \<Rightarrow> s
      | f # fs \<Rightarrow>
          if scopeArg f = [] then s\<lparr>func := f\<lparr>scopeArg := ['', '' @ opt_scope (options s)]\<rparr> # fs\<rparr>
          else s)"

text \<open>The getter \<open>scope\<close>.\<close>

definition get_scope :: "CompileScope \<Rightarrow> CompileScope \<times> string" where
  "get_scope s = (markScopeAsUsed s, opt_scope (options s))"

text \<open>The getter \<open>element\<close>: the innermost open element of the nearest function that has one.\<close>

fun find_element :: "FunctionContext list \<Rightarrow> ElementContext option" where
  "find_element [] = None"
| "find_element (f # fs) = (case element f of e # _ \<Rightarrow> Some e | [] \<Rightarrow> find_element fs)"

definition get_element :: "CompileScope \<Rightarrow> ElementContext option" where
  "get_element s = find_element (func s)"

text \<open>
  \<open>scopeSymbol\<close>: the second \<open>markScopeAsUsed\<close> is the one the prefix function makes
  through the getter \<open>scope\<close> while \<open>generate\<close> builds the symbol.
\<close>

definition scopeSymbol :: "CompileScope \<Rightarrow> string \<Rightarrow> CompileScope \<times> string" where
  "scopeSymbol s name =
     (let s1 = markScopeAsUsed s;
          (g, smb) = generate (scopeSymbols s1) name;
          s2 = markScopeAsUsed (s1\<lparr>scopeSymbols := g\<rparr>)
      in (s2, smb))"

definition globalSymbol :: "CompileScope \<Rightarrow> string \<Rightarrow> CompileScope \<times> string" where
  "globalSymbol s name =
     (let (g, smb) = generate (globalSymbols s) name in (s\<lparr>globalSymbols := g\<rparr>, smb))"

definition localSymbol :: "CompileScope \<Rightarrow> string \<Rightarrow> error + CompileScope \<times> string" where
  "localSymbol s name =
     (case func s of
        [] \<Rightarrow> Inl TypeError
      | f # fs \<Rightarrow>
          (let (g, smb) = generate (localSymbols f) name
           in Inr (s\<lparr>func := f\<lparr>localSymbols := g\<rparr> # fs\<rparr>, smb)))"

definition use :: "CompileScope \<Rightarrow> RuntimeSymbols \<Rightarrow> CompileScope \<times> string" where
  "use s smb = (s\<lparr>runtimeSymbols := set_add smb (runtimeSymbols s)\<rparr>, RuntimeSymbols_name smb)"

definition useHelper :: "CompileScope \<Rightarrow> string \<Rightarrow> CompileScope \<times> string" where
  "useHelper s smb = (s\<lparr>usedHelpers := set_add smb (usedHelpers s)\<rparr>, smb)"

definition useStore :: "(string \<Rightarrow> string) \<Rightarrow> CompileScope \<Rightarrow> string \<Rightarrow> CompileScope \<times> string" where
  "useStore propAccessor s smb =
     (s\<lparr>usedStore := set_add smb (usedStore s)\<rparr>,
      opt_host (options s) @ ''.store.data'' @ propAccessor smb)"

definition push :: "CompileScope \<Rightarrow> string \<Rightarrow> CompileScope" where
  "push s node = s\<lparr>body := body s @ [node]\<rparr>"

definition pushUpdate :: "CompileScope \<Rightarrow> string \<Rightarrow> error + CompileScope" where
  "pushUpdate s chunk =
     (case func s of
        [] \<Rightarrow> Inl TypeError
      | f # fs \<Rightarrow> Inr (s\<lparr>func := f\<lparr>update := update f @ [chunk]\<rparr> # fs\<rparr>))"

text \<open>
  \<open>updateSymbol\<close>: \<open>value in updateDeclarations\<close> also holds for an inherited key, and
  then the inherited member is what the method returns.
\<close>

definition updateSymbol :: "CompileScope \<Rightarrow> string \<Rightarrow> string \<Rightarrow> error + CompileScope \<times> jsval" where
  "updateSymbol s name v =
     (case func s of
        [] \<Rightarrow> Inl TypeError
      | f # fs \<Rightarrow>
          if updateDeclarations f v = None \<and> \<not> inherited v then
            (let (g, smb) = generate (updateSymbols f) name;
                 f' = f\<lparr>updateSymbols := g,
                        updateDeclarations := (updateDeclarations f)(v \<mapsto> smb),
                        update := (''const '' @ smb @ '' = '' @ v @ '';'') # update f\<rparr>
             in Inr (s\<lparr>func := f' # fs\<rparr>, lookup_prop (updateDeclarations f') v))
          else Inr (s, lookup_prop (updateDeclarations f) v))"

subsection \<open>Functions\<close>

definition enterFunction :: "CompileScope \<Rightarrow> string \<Rightarrow> string option \<Rightarrow> CompileScope \<times> string" where
  "enterFunction s name injectorSymbol =
     (let (s1, smb) = globalSymbol s name;
          ctx = \<lparr> update = [],
                  localSymbols = new_SymbolGenerator (PString []) numGenerator,
                  updateSymbols = new_SymbolGenerator (PString []) numGenerator,
                  updateDeclarations = Map.empty,
                  symbol = smb,
                  injector = injectorSymbol,
                  scopeArg = [],
                  element = [] \<rparr>
      in (s1\<lparr>func := ctx # func s1\<rparr>, smb))"

text \<open>The argument list both emitted functions share.\<close>

definition function_args :: "CompileScope \<Rightarrow> FunctionContext \<Rightarrow> string" where
  "function_args s f =
     opt_host (options s)
       @ (case injector f of Some i \<Rightarrow> if i \<noteq> [] then '', '' @ i else [] | None \<Rightarrow> [])
       @ concat (scopeArg f)"

text \<open>\<open>exitFunction\<close>; \<open>format\<close> comes from \<^verbatim>\<open>./utils\<close> and is the parameter \<open>fmt\<close>.\<close>

definition exitFunction ::
  "(string list \<Rightarrow> string \<Rightarrow> string) \<Rightarrow> CompileScope \<Rightarrow> string list \<Rightarrow> error + CompileScope \<times> string" where
  "exitFunction fmt s stmts =
     (case func s of
        [] \<Rightarrow> Inl TypeError
      | f # fs \<Rightarrow>
          (let ind = opt_indent (options s);
               args = function_args s f;
               mount = ''function '' @ symbol f @ ''('' @ args @ '') {'' @ NL @ ind @ fmt stmts ind;
               out =
                 (if update f \<noteq> [] then
                    mount @ NL @ ind @ ''return '' @ symbol f @ ''Update;'' @ NL @ ''}'' @ NL @ NL
                      @ ''function '' @ symbol f @ ''Update('' @ args @ '') {'' @ NL @ ind
                      @ fmt (update f) ind @ NL @ ''}''
                  else mount @ NL @ ''}'')
           in Inr (s\<lparr>func := fs\<rparr>, out)))"

subsection \<open>Namespaces\<close>

definition enterNamespace :: "CompileScope \<Rightarrow> string \<Rightarrow> CompileScope" where
  "enterNamespace s uri =
     (case map_of (namespacesMap s) uri of
        Some smb \<Rightarrow> s\<lparr>namespaceStack := namespaceStack s @ [smb]\<rparr>
      | None \<Rightarrow>
          (let (s1, smb) = globalSymbol s ''ns''
           in s1\<lparr>namespacesMap := map_set uri smb (namespacesMap s1),
                 namespaceStack := namespaceStack s1 @ [smb]\<rparr>))"

definition exitNamespace :: "CompileScope \<Rightarrow> CompileScope" where
  "exitNamespace s = s\<lparr>namespaceStack := butlast (namespaceStack s)\<rparr>"

subsection \<open>Injectors and components\<close>

definition isComponent :: "CompileScope \<Rightarrow> string \<Rightarrow> bool" where
  "isComponent s tagName = (map_of (componentsMap s) tagName \<noteq> None)"

definition inComponent :: "CompileScope \<Rightarrow> bool" where
  "inComponent s = (case get_element s of None \<Rightarrow> False | Some e \<Rightarrow> isComponent s (el_name e))"

definition requiresInjector :: "CompileScope \<Rightarrow> error + bool" where
  "requiresInjector s =
     (case func s of
        [] \<Rightarrow> Inl TypeError
      | f # fs \<Rightarrow>
          (case element f of
             e # _ \<Rightarrow> Inr (inComponent s \<or> \<not> staticContent (stats e) \<or> slotContent (stats e))
           | [] \<Rightarrow> Inr (truthy (injector f))))"

definition localInjector :: "CompileScope \<Rightarrow> error + string option" where
  "localInjector s =
     (case func s of
        [] \<Rightarrow> Inl TypeError
      | f # fs \<Rightarrow> (case element f of e # _ \<Rightarrow> Inr (Some (el_localInjector e)) | [] \<Rightarrow> Inr (injector f)))"

definition scopeInjector :: "CompileScope \<Rightarrow> error + CompileScope \<times> string option" where
  "scopeInjector s =
     (case func s of
        [] \<Rightarrow> Inl TypeError
      | f # fs \<Rightarrow>
          (case element f of
             e # _ \<Rightarrow> Inr (markScopeAsUsed s, Some (el_scopeInjector e))
           | [] \<Rightarrow> Inr (s, injector f)))"

definition warn :: "CompileScope \<Rightarrow> string \<Rightarrow> nat \<Rightarrow> CompileScope" where
  "warn s msg pos = (if opt_warn (options s) then s\<lparr>warn_calls := warn_calls s @ [(msg, pos)]\<rparr> else s)"

text \<open>The element node \<open>checkComponent\<close> receives: \<open>node.name.name\<close> and \<open>node.loc.start.pos\<close>.\<close>

record ENDElement =
  tagName :: string
  start_pos :: nat

definition missing_message :: "string \<Rightarrow> string" where
  "missing_message t =
     ''Missing component definition for <'' @ t @ ''>, did you forgot to <link rel='' @ DQ
       @ ''import'' @ DQ @ ''> it?''"

definition checkComponent :: "CompileScope \<Rightarrow> ENDElement \<Rightarrow> CompileScope" where
  "checkComponent s node =
     (case map_of (componentsMap s) (tagName node) of
        Some d \<Rightarrow> s\<lparr>componentsMap := map_set (tagName node) (d\<lparr>used := True\<rparr>) (componentsMap s)\<rparr>
      | None \<Rightarrow>
          if CHR ''-'' \<in> set (tagName node) \<and> tagName node \<notin> set (warned s) then
            warn (s\<lparr>warned := warned s @ [tagName node]\<rparr>) (missing_message (tagName node))
              (start_pos node)
          else s)"

subsection \<open>Final assembly\<close>

text \<open>
  \<open>getHelpersMap\<close>: the used helpers grouped by the value of \<open>this.helpers[helper]\<close>,
  groups and members in insertion order.
\<close>

fun group_add :: "jsval \<Rightarrow> string \<Rightarrow> (jsval \<times> string list) list \<Rightarrow> (jsval \<times> string list) list" where
  "group_add url h [] = [(url, [h])]"
| "group_add url h ((u, hs) # r) = (if u = url then (u, hs @ [h]) # r else (u, hs) # group_add url h r)"

definition getHelpersMap :: "CompileScope \<Rightarrow> (jsval \<times> string list) list" where
  "getHelpersMap s = foldl (\<lambda>acc h. group_add (lookup_prop (helpers s) h) h acc) [] (usedHelpers s)"

definition unused_message :: "bool \<Rightarrow> string \<Rightarrow> string" where
  "unused_message removeUnused name =
     ''Unused import '' @ DQ @ name @ DQ @ (if removeUnused then '', skipping'' else [])"

text \<open>
  \<open>qStr\<close> and \<open>isIdentifier\<close> come from \<^verbatim>\<open>./utils\<close> and are parameters; \<open>qStr\<close>
  is also applied to a helper's URL, which need not be a string.
\<close>

definition import_line :: "(jsval \<Rightarrow> string) \<Rightarrow> ComponentImport \<Rightarrow> string" where
  "import_line qStr item =
     ''import * as '' @ c_symbol item @ '' from '' @ qStr (Str (href item)) @ '';'' @ NL"

text \<open>The loop \<open>componentsMap.forEach\<close> of \<open>compile\<close>: the warnings it sends and the lines it adds.\<close>

fun import_components ::
  "(jsval \<Rightarrow> string) \<Rightarrow> CompileScope \<Rightarrow> (string \<times> ComponentImport) list \<Rightarrow> CompileScope \<times> string" where
  "import_components qStr s [] = (s, [])"
| "import_components qStr s ((name, item) # rest) =
     (if \<not> used item then
        (let removeUnused = opt_removeUnusedImports (options s);
             s1 = warn s (unused_message removeUnused name) (node_pos item)
         in if removeUnused then import_components qStr s1 rest
            else (let (s2, out) = import_components qStr s1 rest
                  in (s2, import_line qStr item @ out)))
      else (let (s2, out) = import_components qStr s rest
            in (s2, import_line qStr item @ out)))"

definition helper_line :: "(jsval \<Rightarrow> string) \<Rightarrow> jsval \<times> string list \<Rightarrow> string" where
  "helper_line qStr e =
     ''import { '' @ join '', '' (snd e) @ '' } from '' @ qStr (fst e) @ '';'' @ NL"

text \<open>One entry of the partials registry; \<open>first\<close> says that no entry precedes it.\<close>

definition partial_entry ::
  "(jsval \<Rightarrow> string) \<Rightarrow> (string \<Rightarrow> bool) \<Rightarrow> string \<Rightarrow> bool \<Rightarrow> string \<times> PartialDeclaration \<Rightarrow> string" where
  "partial_entry qStr isIdentifier ind first e =
     (if first then [] else '','' @ NL)
       @ NL @ ind @ (if isIdentifier (fst e) then fst e else qStr (Str (fst e))) @ '': {'' @ NL
       @ ind @ ind @ ''body: '' @ p_name (snd e) @ '','' @ NL
       @ ind @ ind @ ''defaults: '' @ p_defaults (snd e) @ NL
       @ ind @ ''}''"

fun partial_entries ::
  "(jsval \<Rightarrow> string) \<Rightarrow> (string \<Rightarrow> bool) \<Rightarrow> string \<Rightarrow> bool \<Rightarrow> (string \<times> PartialDeclaration) list \<Rightarrow> string" where
  "partial_entries qStr isIdentifier ind first [] = []"
| "partial_entries qStr isIdentifier ind first (e # es) =
     partial_entry qStr isIdentifier ind first e @ partial_entries qStr isIdentifier ind False es"

definition runtime_import :: "CompileScope \<Rightarrow> string" where
  "runtime_import s =
     (if runtimeSymbols s \<noteq> [] then
        ''import { '' @ join '', '' (map RuntimeSymbols_name (runtimeSymbols s)) @ '' } from '' @ DQ
          @ opt_module (options s) @ DQ @ '';'' @ NL
      else [])"

definition compile ::
  "(jsval \<Rightarrow> string) \<Rightarrow> (string \<Rightarrow> bool) \<Rightarrow> CompileScope \<Rightarrow> CompileScope \<times> string" where
  "compile qStr isIdentifier s =
     (let (s1, imports) = import_components qStr s (componentsMap s);
          helper_imports = concat (map (helper_line qStr) (getHelpersMap s1));
          css =
            (if truthy (opt_cssScope (options s1)) then
               NL @ ''export const cssScope = '' @ qStr (Str (the (opt_cssScope (options s1)))) @ '';'' @ NL
             else []);
          partials =
            (if partialsMap s1 \<noteq> [] then
               NL @ ''export const '' @ opt_partials (options s1) @ '' = {''
                 @ partial_entries qStr isIdentifier (opt_indent (options s1)) True (partialsMap s1)
                 @ NL @ ''};'' @ NL
             else []);
          namespaces =
            concat (map (\<lambda>(uri, smb). ''const '' @ smb @ '' = '' @ qStr (Str uri) @ '';'' @ NL)
              (namespacesMap s1));
          chunks = concat (map (\<lambda>chunk. NL @ chunk @ NL) (body s1))
      in (s1, runtime_import s @ imports @ helper_imports @ css @ partials @ namespaces @ chunks))"

section \<open>The expression tokenizer\<close>

text \<open>
  The plugin overrides \<open>readToken\<close> of acorn's parser. The input is the list of its
  UTF-16 code units (\<open>charCodeAt\<close>); \<open>isIdentifierStart\<close> and \<open>isIdentifierChar\<close> are
  acorn's and are parameters. The loop of \<open>end_readWord\<close> reads \<open>charCodeAt(++pos)\<close>
  until the character is neither an identifier character nor \<open>-\<close> (45); past the end
  \<open>charCodeAt\<close> is \<open>NaN\<close>, which stops it.
\<close>

fun scanWord :: "(nat \<Rightarrow> bool) \<Rightarrow> nat list \<Rightarrow> nat \<Rightarrow> nat" where
  "scanWord isIdentifierChar [] pos = pos"
| "scanWord isIdentifierChar (ch # rest) pos =
     (if isIdentifierChar ch \<or> ch = 45 then scanWord isIdentifierChar rest (Suc pos) else pos)"

text \<open>\<open>input.slice(start, end)\<close>.\<close>

definition slice :: "'a list \<Rightarrow> nat \<Rightarrow> nat \<Rightarrow> 'a list" where
  "slice xs a b = take (b - a) (drop a xs)"

text \<open>\<open>end_readWord\<close> returns the new position and the value of the name token.\<close>

definition end_readWord :: "(nat \<Rightarrow> bool) \<Rightarrow> nat list \<Rightarrow> nat \<Rightarrow> nat \<times> nat list" where
  "end_readWord isIdentifierChar input start =
     (let pos = scanWord isIdentifierChar (drop (Suc start) input) (Suc start)
      in (pos, slice input start pos))"

text \<open>
  What \<open>readToken(code)\<close> does at position \<open>pos\<close>: it finishes a name token, or hands
  the character to the tokenizer of the base class.
\<close>

datatype token = Name nat "nat list" | Super

definition readToken :: "(nat \<Rightarrow> bool) \<Rightarrow> (nat \<Rightarrow> bool) \<Rightarrow> nat list \<Rightarrow> nat \<Rightarrow> nat \<Rightarrow> token" where
  "readToken isIdentifierStart isIdentifierChar input pos code =
     (if isIdentifierStart code \<or> code = 35 \<or> code = 64 then
        (let (p, w) = end_readWord isIdentifierChar input pos in Name p w)
      else Super)"

text \<open>The code units of an ASCII string.\<close>

definition codes :: "string \<Rightarrow> nat list" where
  "codes s = map of_char s"

section \<open>Sequences of symbol requests\<close>

text \<open>A text ends in a digit when it is not empty and its last character is a decimal digit.\<close>

definition ends_in_digit :: "string \<Rightarrow> bool" where
  "ends_in_digit xs = (xs \<noteq> [] \<and> is_digit (last xs))"

text \<open>
  A generator is numbered with \<open>pre\<close> and \<open>sfx\<close> when its prefix part is the text
  \<open>pre\<close> and its suffix part is \<open>sfx\<close> followed by the number. The generators of a
  \<open>CompileScope\<close> and of a \<open>FunctionContext\<close> are all of this kind.
\<close>

definition numbered :: "SymbolGenerator \<Rightarrow> string \<Rightarrow> string \<Rightarrow> bool" where
  "numbered g pre sfx =
     ((\<forall>num. getPart num (gen_prefix g) = pre) \<and> (\<forall>num. getPart num (gen_suffix g) = sfx @ num_str num))"

definition good_name :: "string \<Rightarrow> string \<Rightarrow> bool" where
  "good_name sfx n = (\<not> inherited n \<and> \<not> ends_in_digit (n @ sfx))"

text \<open>The number the next request for \<open>n\<close> gets, when its slot holds a number or is absent.\<close>

definition next_num :: "SymbolGenerator \<Rightarrow> string \<Rightarrow> nat" where
  "next_num g n = (case symbols g n of Some (Num c) \<Rightarrow> Suc c | _ \<Rightarrow> 0)"

text \<open>Every slot under a name that is not inherited holds a number.\<close>

definition counting :: "SymbolGenerator \<Rightarrow> bool" where
  "counting g = (\<forall>n c. symbols g n = Some c \<longrightarrow> \<not> inherited n \<longrightarrow> (\<exists>k. c = Num k))"

text \<open>
  A sequence of calls of \<open>globalSymbol\<close> and \<open>scopeSymbol\<close> on one scope; \<open>run_calls\<close>
  returns the final scope, the global symbols and the persistent-scope symbols, each in
  the order returned.
\<close>

datatype sym_call = GlobalCall string | ScopeCall string

fun run_calls :: "CompileScope \<Rightarrow> sym_call list \<Rightarrow> CompileScope \<times> string list \<times> string list" where
  "run_calls s [] = (s, [], [])"
| "run_calls s (GlobalCall n # cs) =
     (let (s1, t) = globalSymbol s n; (s2, gs, ss) = run_calls s1 cs in (s2, t # gs, ss))"
| "run_calls s (ScopeCall n # cs) =
     (let (s1, t) = scopeSymbol s n; (s2, gs, ss) = run_calls s1 cs in (s2, gs, t # ss))"

fun global_names :: "sym_call list \<Rightarrow> string list" where
  "global_names [] = []"
| "global_names (GlobalCall n # cs) = n # global_names cs"
| "global_names (ScopeCall n # cs) = global_names cs"

fun scope_names :: "sym_call list \<Rightarrow> string list" where
  "scope_names [] = []"
| "scope_names (GlobalCall n # cs) = scope_names cs"
| "scope_names (ScopeCall n # cs) = n # scope_names cs"

text \<open>The suffix the constructor gives the global generator, before the number.\<close>

definition global_suffix :: "(string \<Rightarrow> bool \<Rightarrow> string) \<Rightarrow> UserOptions \<Rightarrow> string" where
  "global_suffix tagToJS u =
     tagToJS (opt_component (assign_options u)) True @ opt_suffix (assign_options u)"

text \<open>
  For worked examples: \<open>new CompileScope()\<close> without options. No component name is
  given, so \<open>tagToJS\<close> is applied to the empty string; the examples take its result to
  be empty (the generated module of the test fixtures names its first function
  \<open>$$template0\<close>), and no helper is looked up in them.
\<close>

definition default_user :: UserOptions where
  "default_user =
     \<lparr> u_module = None, u_host = None, u_scope = None, u_partials = None, u_cssScope = None,
       u_helpers = None, u_component = None, u_indent = None, u_prefix = None, u_suffix = None,
       u_removeUnusedImports = None, u_warn = False \<rparr>"

definition example_scope :: CompileScope where
  "example_scope = new_CompileScope (\<lambda>_ _. []) (\<lambda>_. []) default_user"

section \<open>The spec's reading of \<open>requiresInjector\<close>\<close>

text \<open>
  The sentence of the specification, word for word: true iff the current element's
  content is not fully static, or the current position is inside content projected into
  a component's slot, or the current position is inside a child-component boundary; false
  in every other state. The current element is the one the getter \<open>element\<close> of the
  scope gives.
\<close>

definition requiresInjector_spec :: "CompileScope \<Rightarrow> bool" where
  "requiresInjector_spec s =
     (case get_element s of
        None \<Rightarrow> False
      | Some e \<Rightarrow> \<not> staticContent (stats e) \<or> slotContent (stats e) \<or> isComponent s (el_name e))"

text \<open>
  The earlier copy of \<^verbatim>\<open>scope.ts\<close> among the sources decides by the element the
  getter \<open>element\<close> gives, and by its \<open>staticContent\<close> alone.
\<close>

definition requiresInjector_earlier :: "CompileScope \<Rightarrow> error + bool" where
  "requiresInjector_earlier s =
     (case get_element s of
        Some e \<Rightarrow> Inr (\<not> staticContent (stats e))
      | None \<Rightarrow> (case func s of [] \<Rightarrow> Inl TypeError | f # fs \<Rightarrow> Inr (truthy (injector f))))"

section \<open>A formatter for worked examples\<close>

text \<open>
  \<open>format\<close> of \<^verbatim>\<open>./utils\<close> is a parameter of \<open>exitFunction\<close>. The worked examples
  use the layout of the generated modules among the test fixtures: one statement per
  line, each line after the first starting with the indentation.
\<close>

definition format_lines :: "string list \<Rightarrow> string \<Rightarrow> string" where
  "format_lines chunks ind = join (NL @ ind) chunks"

abbreviation TAB :: string where "TAB \<equiv> [CHR 0x09]"

text \<open>The text a call of \<open>exitFunction\<close> returns, when it returns.\<close>

definition emitted :: "error + CompileScope \<times> string \<Rightarrow> string option" where
  "emitted r = (case r of Inl _ \<Rightarrow> None | Inr p \<Rightarrow> Some (snd p))"

section \<open>Opening and closing elements\<close>

text \<open>
  \<open>enterElement\<close> builds an \<open>ElementContext\<close> with a constructor that is outside this
  model; the context it builds is the parameter \<open>ctx\<close>. The method links it in front of
  the open elements of the current function. \<open>exitElement\<close> finalizes the element the
  getter \<open>element\<close> gives (\<open>finalize\<close> is outside this model as well) and makes that
  element's parent the open element of the current function.
\<close>

definition enterElement :: "CompileScope \<Rightarrow> ElementContext \<Rightarrow> error + CompileScope" where
  "enterElement s ctx =
     (case func s of
        [] \<Rightarrow> Inl TypeError
      | f # fs \<Rightarrow> Inr (s\<lparr>func := f\<lparr>element := ctx # element f\<rparr> # fs\<rparr>))"

fun find_parents :: "FunctionContext list \<Rightarrow> ElementContext list option" where
  "find_parents [] = None"
| "find_parents (f # fs) = (case element f of e # es \<Rightarrow> Some es | [] \<Rightarrow> find_parents fs)"

definition exitElement :: "CompileScope \<Rightarrow> error + CompileScope" where
  "exitElement s =
     (case find_parents (func s) of
        None \<Rightarrow> Inl TypeError
      | Some es \<Rightarrow>
          (case func s of
             [] \<Rightarrow> Inl TypeError
           | f # fs \<Rightarrow> Inr (s\<lparr>func := f\<lparr>element := es\<rparr> # fs\<rparr>)))"

text \<open>Two elements for worked examples: a list with dynamic content and a static heading.\<close>

definition dynamic_ul :: ElementContext where
  "dynamic_ul =
     \<lparr> el_name = ''ul'', stats = \<lparr> staticContent = False, slotContent = False \<rparr>,
       el_localInjector = ''injector0'', el_scopeInjector = ''scope.$_injector0'' \<rparr>"

definition static_h1 :: ElementContext where
  "static_h1 =
     \<lparr> el_name = ''h1'', stats = \<lparr> staticContent = True, slotContent = False \<rparr>,
       el_localInjector = ''injector0'', el_scopeInjector = ''scope.$_injector0'' \<rparr>"

section \<open>Runs of \<open>checkComponent\<close> and the two settings of \<open>removeUnusedImports\<close>\<close>

text \<open>\<open>checkComponent\<close> applied to the element nodes of a template, in order.\<close>

definition check_all :: "CompileScope \<Rightarrow> ENDElement list \<Rightarrow> CompileScope" where
  "check_all s nodes = foldl checkComponent s nodes"

text \<open>How often the callback was told that the component of tag \<open>t\<close> is missing.\<close>

definition missing_count :: "string \<Rightarrow> CompileScope \<Rightarrow> nat" where
  "missing_count t s = length (filter (\<lambda>w. fst w = missing_message t) (warn_calls s))"

text \<open>The scope with the option \<open>removeUnusedImports\<close> set to \<open>b\<close>.\<close>

definition with_removeUnused :: "bool \<Rightarrow> CompileScope \<Rightarrow> CompileScope" where
  "with_removeUnused b s = s\<lparr>options := (options s)\<lparr>opt_removeUnusedImports := b\<rparr>\<rparr>"

text \<open>The imports that were never marked as used, in the order of the map.\<close>

definition unused_imports :: "CompileScope \<Rightarrow> (string \<times> ComponentImport) list" where
  "unused_imports s = filter (\<lambda>e. \<not> used (snd e)) (componentsMap s)"

definition used_imports :: "CompileScope \<Rightarrow> (string \<times> ComponentImport) list" where
  "used_imports s = filter (\<lambda>e. used (snd e)) (componentsMap s)"

text \<open>What \<open>compile\<close> adds after the component imports.\<close>

definition after_imports :: "(jsval \<Rightarrow> string) \<Rightarrow> (string \<Rightarrow> bool) \<Rightarrow> CompileScope \<Rightarrow> string" where
  "after_imports qStr isIdentifier s =
     concat (map (helper_line qStr) (getHelpersMap s))
       @ (if truthy (opt_cssScope (options s)) then
            NL @ ''export const cssScope = '' @ qStr (Str (the (opt_cssScope (options s)))) @ '';'' @ NL
          else [])
       @ (if partialsMap s \<noteq> [] then
            NL @ ''export const '' @ opt_partials (options s) @ '' = {''
              @ partial_entries qStr isIdentifier (opt_indent (options s)) True (partialsMap s)
              @ NL @ ''};'' @ NL
          else [])
       @ concat (map (\<lambda>(uri, smb). ''const '' @ smb @ '' = '' @ qStr (Str uri) @ '';'' @ NL)
           (namespacesMap s))
       @ concat (map (\<lambda>chunk. NL @ chunk @ NL) (body s))"

text \<open>
  Scopes for worked examples: one constructed with a \<open>warn\<close> callback and no other
  option, and the same scope after two imports were registered.
\<close>

definition warning_scope :: CompileScope where
  "warning_scope = new_CompileScope (\<lambda>_ _. []) (\<lambda>_. []) (default_user\<lparr>u_warn := True\<rparr>)"

definition two_imports :: CompileScope where
  "two_imports =
     warning_scope
       \<lparr>componentsMap :=
          [(''my-button'', \<lparr> c_symbol = ''MyButton'', href = ''./my-button.html'', node_pos = 10, used = False \<rparr>),
           (''my-list'', \<lparr> c_symbol = ''MyList'', href = ''./my-list.html'', node_pos = 50, used = False \<rparr>)]\<rparr>"

text \<open>A printer of string literals for worked examples: the text between double quotes.\<close>

fun quote_str :: "jsval \<Rightarrow> string" where
  "quote_str (Str x) = DQ @ x @ DQ"
| "quote_str Undefined = ''undefined''"
| "quote_str (ProtoMember k) = k"

text \<open>
  The invariant behind the single warning: the callback was told about a missing tag at
  most once, and only about tags that are in \<open>_warned\<close>.
\<close>

definition once :: "CompileScope \<Rightarrow> bool" where
  "once s = (\<forall>t. missing_count t s \<le> (if t \<in> set (warned s) then 1 else 0))"

text \<open>The warnings \<open>compile\<close> sends for the imports \<open>xs\<close> when the option is \<open>b\<close>.\<close>

definition import_warnings :: "bool \<Rightarrow> (string \<times> ComponentImport) list \<Rightarrow> (string \<times> nat) list" where
  "import_warnings b xs =
     map (\<lambda>e. (unused_message b (fst e), node_pos (snd e))) (filter (\<lambda>e. \<not> used (snd e)) xs)"

text \<open>The callback was told that the component of tag \<open>t\<close> is missing.\<close>

definition told_missing :: "string \<Rightarrow> CompileScope \<Rightarrow> bool" where
  "told_missing t s = (\<exists>p. (missing_message t, p) \<in> set (warn_calls s))"

text \<open>Element nodes for worked examples, at a given source position.\<close>

definition x_foo :: "nat \<Rightarrow> ENDElement" where
  "x_foo p = \<lparr> tagName = ''x-foo'', start_pos = p \<rparr>"

definition my_list :: "nat \<Rightarrow> ENDElement" where
  "my_list p = \<lparr> tagName = ''my-list'', start_pos = p \<rparr>"

section \<open>The scope as a state machine\<close>

text \<open>
  One step of a scope: a call of one of its methods that returns, or the registration
  of a component import or of a partial, which the code generator does by \<open>set\<close> on the
  two maps. A reachable scope is what a sequence of steps makes of a freshly constructed
  one.
\<close>

inductive step :: "CompileScope \<Rightarrow> CompileScope \<Rightarrow> bool" where
  step_globalSymbol: "step s (fst (globalSymbol s n))"
| step_scopeSymbol: "step s (fst (scopeSymbol s n))"
| step_localSymbol: "localSymbol s n = Inr r \<Longrightarrow> step s (fst r)"
| step_use: "step s (fst (use s y))"
| step_useHelper: "step s (fst (useHelper s h))"
| step_useStore: "step s (fst (useStore propAccessor s k))"
| step_push: "step s (push s node)"
| step_pushUpdate: "pushUpdate s c = Inr s' \<Longrightarrow> step s s'"
| step_updateSymbol: "updateSymbol s n v = Inr r \<Longrightarrow> step s (fst r)"
| step_enterFunction: "step s (fst (enterFunction s n ij))"
| step_exitFunction: "exitFunction fmt s stmts = Inr r \<Longrightarrow> step s (fst r)"
| step_enterElement: "enterElement s ctx = Inr s' \<Longrightarrow> step s s'"
| step_exitElement: "exitElement s = Inr s' \<Longrightarrow> step s s'"
| step_enterNamespace: "step s (enterNamespace s uri)"
| step_exitNamespace: "step s (exitNamespace s)"
| step_scopeInjector: "scopeInjector s = Inr r \<Longrightarrow> step s (fst r)"
| step_get_scope: "step s (fst (get_scope s))"
| step_checkComponent: "step s (checkComponent s el)"
| step_compile: "step s (fst (compile qStr isIdentifier s))"
| step_import: "step s (s\<lparr>componentsMap := map_set k d (componentsMap s)\<rparr>)"
| step_partial: "step s (s\<lparr>partialsMap := map_set k p (partialsMap s)\<rparr>)"

inductive reachable :: "CompileScope \<Rightarrow> bool" where
  reachable_new: "reachable (new_CompileScope tagToJS reverseObject u)"
| reachable_step: "reachable s \<Longrightarrow> step s s' \<Longrightarrow> reachable s'"

section \<open>Sequences of calls\<close>

text \<open>
  A call of a method of the scope, with its arguments (\<open>propAccessor\<close>, \<open>format\<close>,
  \<open>qStr\<close> and \<open>isIdentifier\<close> of \<^verbatim>\<open>./utils\<close> travel with the calls that use them).
  \<open>exec\<close> is the effect of one call on the scope, and \<open>run_ops\<close> that of a sequence of
  calls, which stops at the first call that raises.
\<close>

datatype scope_op =
    Op_globalSymbol string
  | Op_scopeSymbol string
  | Op_localSymbol string
  | Op_get_scope
  | Op_use RuntimeSymbols
  | Op_useHelper string
  | Op_useStore "string \<Rightarrow> string" string
  | Op_push string
  | Op_pushUpdate string
  | Op_updateSymbol string string
  | Op_enterFunction string "string option"
  | Op_exitFunction "string list \<Rightarrow> string \<Rightarrow> string" "string list"
  | Op_enterElement ElementContext
  | Op_exitElement
  | Op_enterNamespace string
  | Op_exitNamespace
  | Op_localInjector
  | Op_scopeInjector
  | Op_checkComponent ENDElement
  | Op_compile "jsval \<Rightarrow> string" "string \<Rightarrow> bool"

text \<open>The scope a call leaves behind, when the call returns.\<close>

definition scope_after :: "error + CompileScope \<times> 'a \<Rightarrow> error + CompileScope" where
  "scope_after r = (case r of Inl e \<Rightarrow> Inl e | Inr p \<Rightarrow> Inr (fst p))"

fun exec :: "scope_op \<Rightarrow> CompileScope \<Rightarrow> error + CompileScope" where
  "exec (Op_globalSymbol n) s = Inr (fst (globalSymbol s n))"
| "exec (Op_scopeSymbol n) s = Inr (fst (scopeSymbol s n))"
| "exec (Op_localSymbol n) s = scope_after (localSymbol s n)"
| "exec Op_get_scope s = Inr (fst (get_scope s))"
| "exec (Op_use y) s = Inr (fst (use s y))"
| "exec (Op_useHelper h) s = Inr (fst (useHelper s h))"
| "exec (Op_useStore propAccessor k) s = Inr (fst (useStore propAccessor s k))"
| "exec (Op_push node) s = Inr (push s node)"
| "exec (Op_pushUpdate c) s = pushUpdate s c"
| "exec (Op_updateSymbol n v) s = scope_after (updateSymbol s n v)"
| "exec (Op_enterFunction n ij) s = Inr (fst (enterFunction s n ij))"
| "exec (Op_exitFunction fmt stmts) s = scope_after (exitFunction fmt s stmts)"
| "exec (Op_enterElement ctx) s = enterElement s ctx"
| "exec Op_exitElement s = exitElement s"
| "exec (Op_enterNamespace uri) s = Inr (enterNamespace s uri)"
| "exec Op_exitNamespace s = Inr (exitNamespace s)"
| "exec Op_localInjector s = (case localInjector s of Inl e \<Rightarrow> Inl e | Inr r \<Rightarrow> Inr s)"
| "exec Op_scopeInjector s = scope_after (scopeInjector s)"
| "exec (Op_checkComponent el) s = Inr (checkComponent s el)"
| "exec (Op_compile qStr isIdentifier) s = Inr (fst (compile qStr isIdentifier s))"

fun run_ops :: "scope_op list \<Rightarrow> CompileScope \<Rightarrow> error + CompileScope" where
  "run_ops [] s = Inr s"
| "run_ops (c # cs) s = (case exec c s of Inl e \<Rightarrow> Inl e | Inr s1 \<Rightarrow> run_ops cs s1)"

text \<open>
  The calls that reference persisted state: \<open>scopeSymbol\<close>, the getter \<open>scope\<close> and
  \<open>scopeInjector\<close>. They are the callers of \<open>markScopeAsUsed\<close>.
\<close>

fun references_scope :: "scope_op \<Rightarrow> bool" where
  "references_scope (Op_scopeSymbol n) = True"
| "references_scope Op_get_scope = True"
| "references_scope Op_scopeInjector = True"
| "references_scope c = False"

text \<open>
  \<open>lazy_body d cs\<close>: the calls \<open>cs\<close>, made \<open>d\<close> functions deep inside a function, stay
  inside that function and end in it (every \<open>exitFunction\<close> among them leaves a function
  that was entered among them), and no call made while that function is the current one
  references persisted state. The calls made inside nested functions are free to.
\<close>

fun lazy_body :: "nat \<Rightarrow> scope_op list \<Rightarrow> bool" where
  "lazy_body d [] = (d = 0)"
| "lazy_body d (c # cs) =
     (case c of
        Op_enterFunction n ij \<Rightarrow> lazy_body (Suc d) cs
      | Op_exitFunction fmt stmts \<Rightarrow> 0 < d \<and> lazy_body (d - 1) cs
      | _ \<Rightarrow> (0 < d \<or> \<not> references_scope c) \<and> lazy_body d cs)"

text \<open>The injector handle as \<open>exitFunction\<close> prints it after the host.\<close>

definition injector_arg :: "string option \<Rightarrow> string" where
  "injector_arg ij = (case ij of Some i \<Rightarrow> if i \<noteq> [] then '', '' @ i else [] | None \<Rightarrow> [])"

text \<open>A call other than \<open>enterFunction\<close> and \<open>exitFunction\<close>.\<close>

definition plain :: "scope_op \<Rightarrow> bool" where
  "plain c = (case c of Op_enterFunction n ij \<Rightarrow> False | Op_exitFunction fmt stmts \<Rightarrow> False | _ \<Rightarrow> True)"

text \<open>
  For worked examples, the calls made for the body of a template function: none of
  them references persisted state, but the function nested in it requests a persistent
  symbol.
\<close>

definition template_body :: "scope_op list" where
  "template_body =
     [Op_use R_elem, Op_localSymbol ''div'',
      Op_enterFunction ''conditionContent'' (Some ''injector''),
      Op_scopeSymbol ''block'', Op_pushUpdate ''updateBlock(scope.$_block0);'',
      Op_exitFunction format_lines [''insert(injector, node);''],
      Op_push ''chunk'', Op_updateSymbol ''attrValue'' ''host.props.items'']"

section \<open>The token stream\<close>

text \<open>
  acorn's \<open>isIdentifierStart\<close> and \<open>isIdentifierChar\<close> on ASCII, for the worked
  examples: \<open>$\<close>, \<open>_\<close> and the letters start an identifier, and the digits may
  follow. The examples hold ASCII only; codes from 128 on are decided by acorn's
  Unicode tables, which these two predicates leave out.
\<close>

definition ascii_isIdentifierStart :: "nat \<Rightarrow> bool" where
  "ascii_isIdentifierStart code =
     (if code < 65 then code = 36
      else if code < 91 then True
      else if code < 97 then code = 95
      else code < 123)"

definition ascii_isIdentifierChar :: "nat \<Rightarrow> bool" where
  "ascii_isIdentifierChar code =
     (if code < 48 then code = 36
      else if code < 58 then True
      else if code < 65 then False
      else if code < 91 then True
      else if code < 97 then code = 95
      else code < 123)"

text \<open>A continuation character of a word: an identifier character or \<open>-\<close>.\<close>

definition continues :: "(nat \<Rightarrow> bool) \<Rightarrow> nat \<Rightarrow> bool" where
  "continues isIdentifierChar ch = (isIdentifierChar ch \<or> ch = 45)"

text \<open>
  acorn's \<open>nextToken\<close> calls \<open>readToken\<close> with the code at the current position, and
  the next token starts where the last one ended. \<open>words\<close> is the run of name tokens the
  plugin finishes from \<open>pos\<close> on, up to the end of the input or to the first character it
  hands to the base tokenizer (acorn's skipping of white space is not modelled).
\<close>

function words :: "(nat \<Rightarrow> bool) \<Rightarrow> (nat \<Rightarrow> bool) \<Rightarrow> nat list \<Rightarrow> nat \<Rightarrow> nat list list" where
  "words isIdentifierStart isIdentifierChar input pos =
     (if pos < length input then
        (case readToken isIdentifierStart isIdentifierChar input pos (input ! pos) of
           Name p w \<Rightarrow> w # words isIdentifierStart isIdentifierChar input p
         | Super \<Rightarrow> [])
      else [])"
  by pat_completeness auto

termination words
proof (relation "measure (\<lambda>(isS, isC, input, pos). length input - pos)")
  show "wf (measure (\<lambda>(isS, isC, input, pos). length input - pos))" by simp
next
  fix isIdentifierStart isIdentifierChar :: "nat \<Rightarrow> bool" and input :: "nat list" and pos x21 :: nat
    and x22 :: "nat list"
  assume lt: "pos < length input"
    and tok: "readToken isIdentifierStart isIdentifierChar input pos (input ! pos) = Name x21 x22"
  have ge: "p \<le> scanWord isIdentifierChar xs p" for xs p
    by (induction xs arbitrary: p) (auto intro: Suc_leD)
  from tok have "x21 = scanWord isIdentifierChar (drop (Suc pos) input) (Suc pos)"
    by (auto simp: readToken_def end_readWord_def Let_def split: if_splits)
  with ge [of "Suc pos" "drop (Suc pos) input"] have "pos < x21" by simp
  with lt show "((isIdentifierStart, isIdentifierChar, input, x21), (isIdentifierStart, isIdentifierChar, input, pos))
      \<in> measure (\<lambda>(isS, isC, input, pos). length input - pos)"
    by simp
qed

declare words.simps [simp del]

section \<open>Decimal numbers\<close>

lemma digit_char_is_digit: "d < 10 \<Longrightarrow> is_digit (digit_char d)"
proof -
  assume "d < 10"
  then have "d \<in> {0,1,2,3,4,5,6,7,8,9}" by auto
  then show ?thesis by (auto simp: is_digit_def digit_char_def)
qed

lemma digit_char_inj: "a < 10 \<Longrightarrow> b < 10 \<Longrightarrow> digit_char a = digit_char b \<Longrightarrow> a = b"
proof -
  assume "a < 10" "b < 10" and e: "digit_char a = digit_char b"
  then have "a \<in> {0,1,2,3,4,5,6,7,8,9}" "b \<in> {0,1,2,3,4,5,6,7,8,9}" by auto
  with e show ?thesis by (auto simp: digit_char_def)
qed

lemma dec_digits: "list_all is_digit (dec n)"
proof (induction n rule: dec.induct)
  case (1 n)
  show ?case
  proof (cases "n < 10")
    case True
    then show ?thesis by (simp add: dec.simps [of n] digit_char_is_digit)
  next
    case False
    with 1 show ?thesis by (simp add: dec.simps [of n] digit_char_is_digit)
  qed
qed

lemma dec_nonempty: "dec n \<noteq> []"
  by (subst dec.simps) simp

lemma dec_inj: "dec n = dec m \<Longrightarrow> n = m"
proof (induction n arbitrary: m rule: dec.induct)
  case (1 n)
  show ?case
  proof (cases "n < 10")
    case True
    show ?thesis
    proof (cases "m < 10")
      case True
      with \<open>n < 10\<close> 1(2) show ?thesis by (simp add: dec.simps [of n] dec.simps [of m] digit_char_inj)
    next
      case False
      with \<open>n < 10\<close> 1(2) dec_nonempty [of "m div 10"] show ?thesis
        by (simp add: dec.simps [of n] dec.simps [of m])
    qed
  next
    case False
    show ?thesis
    proof (cases "m < 10")
      case True
      with False 1(2) dec_nonempty [of "n div 10"] show ?thesis
        by (simp add: dec.simps [of n] dec.simps [of m])
    next
      case mf: False
      from False mf 1(2) have e: "dec (n div 10) = dec (m div 10)" "digit_char (n mod 10) = digit_char (m mod 10)"
        by (simp_all add: dec.simps [of n] dec.simps [of m])
      from 1(1) [OF False e(1)] have "n div 10 = m div 10" .
      moreover from e(2) have "n mod 10 = m mod 10" by (simp add: digit_char_inj)
      ultimately show ?thesis by (metis div_mult_mod_eq)
    qed
  qed
qed

lemma append_digits_eq:
  assumes "\<not> ends_in_digit a" "\<not> ends_in_digit b" "list_all is_digit d1" "list_all is_digit d2"
    and "a @ d1 = b @ d2"
  shows "a = b \<and> d1 = d2"
proof -
  from assms(5) obtain us where "(a = b @ us \<and> us @ d1 = d2) \<or> (a @ us = b \<and> d1 = us @ d2)"
    by (auto simp: append_eq_append_conv2)
  then show ?thesis
  proof
    assume h: "a = b @ us \<and> us @ d1 = d2"
    have "us = []"
    proof (rule ccontr)
      assume "us \<noteq> []"
      with h assms(4) have "is_digit (last us)" by (auto simp: list_all_iff)
      with h \<open>us \<noteq> []\<close> assms(1) show False by (simp add: ends_in_digit_def)
    qed
    with h show ?thesis by simp
  next
    assume h: "a @ us = b \<and> d1 = us @ d2"
    have "us = []"
    proof (rule ccontr)
      assume "us \<noteq> []"
      with h assms(3) have "is_digit (last us)" by (auto simp: list_all_iff)
      with h \<open>us \<noteq> []\<close> assms(2) show False by (auto simp: ends_in_digit_def)
    qed
    with h show ?thesis by simp
  qed
qed

section \<open>Numbering of generated symbols\<close>

lemma numbered_generate:
  "numbered g pre sfx \<Longrightarrow> numbered (fst (generate g n)) pre sfx"
  by (simp add: numbered_def generate_def Let_def split: prod.splits)

lemma generate_all_Cons:
  "generate_all g (n # ns) =
     (fst (generate_all (fst (generate g n)) ns),
      snd (generate g n) # snd (generate_all (fst (generate g n)) ns))"
  by (simp add: case_prod_beta)

lemma incr_Num: "\<exists>k. c = Num k \<Longrightarrow> \<exists>k. incr c = Num k"
  by auto

lemma counting_generate: "counting g \<Longrightarrow> counting (fst (generate g n))"
  unfolding counting_def generate_def
  by (cases "symbols g n") (auto simp: incr_Num)

lemma generate_text:
  assumes "numbered g pre sfx" "counting g" "\<not> inherited n"
  shows "snd (generate g n) = pre @ n @ sfx @ dec (next_num g n)"
proof (cases "symbols g n")
  case None
  with assms have "n \<noteq> ''__proto__''" by (auto simp: inherited_def Object_prototype_keys_def)
  with None assms show ?thesis
    by (simp add: generate_def numbered_def next_num_def)
next
  case (Some c)
  with assms obtain k where "c = Num k" by (auto simp: counting_def)
  with Some assms show ?thesis
    by (simp add: generate_def numbered_def next_num_def)
qed

lemma generate_next:
  assumes "counting g" "\<not> inherited n"
  shows "next_num (fst (generate g n)) m = (if m = n then Suc (next_num g n) else next_num g m)"
proof (cases "symbols g n")
  case None
  with assms have "n \<noteq> ''__proto__''" by (auto simp: inherited_def Object_prototype_keys_def)
  with None assms show ?thesis
    by (simp add: generate_def next_num_def)
next
  case (Some c)
  with assms obtain k where "c = Num k" by (auto simp: counting_def)
  with Some assms show ?thesis
    by (simp add: generate_def next_num_def)
qed

lemma generate_all_length: "length (snd (generate_all g ns)) = length ns"
  by (induction ns arbitrary: g) (simp_all add: generate_all_Cons del: generate_all.simps(2))

lemma generate_all_nth:
  assumes "numbered g pre sfx" "counting g" "\<forall>n\<in>set ns. \<not> inherited n" "i < length ns"
  shows "snd (generate_all g ns) ! i
           = pre @ ns ! i @ sfx @ dec (next_num g (ns ! i) + count_list (take i ns) (ns ! i))"
  using assms
proof (induction ns arbitrary: g i)
  case Nil
  then show ?case by simp
next
  case (Cons n ns)
  obtain g1 t where g1: "generate g n = (g1, t)" by (cases "generate g n")
  have n1: "numbered g1 pre sfx" using numbered_generate [OF Cons.prems(1), of n] g1 by simp
  have c1: "counting g1" using counting_generate [OF Cons.prems(2), of n] g1 by simp
  have ni: "\<not> inherited n" using Cons.prems(3) by simp
  show ?case
  proof (cases i)
    case 0
    with g1 generate_text [OF Cons.prems(1,2) ni] show ?thesis
      by (simp add: generate_all_Cons del: generate_all.simps(2))
  next
    case (Suc j)
    with Cons.prems have j: "j < length ns" and inh: "\<forall>n\<in>set ns. \<not> inherited n" by simp_all
    from Cons.IH [OF n1 c1 inh j] generate_next [OF Cons.prems(2) ni, of "ns ! j"] g1 Suc
    show ?thesis by (simp add: generate_all_Cons del: generate_all.simps(2))
  qed
qed

lemma symbol_text_inj:
  assumes "good_name sfx n1" "good_name sfx n2"
    and "pre @ n1 @ sfx @ dec k1 = pre @ n2 @ sfx @ dec k2"
  shows "n1 = n2 \<and> k1 = k2"
proof -
  from assms(3) have "(n1 @ sfx) @ dec k1 = (n2 @ sfx) @ dec k2" by simp
  with assms(1,2) have "n1 @ sfx = n2 @ sfx \<and> dec k1 = dec k2"
    by (intro append_digits_eq) (simp_all add: good_name_def dec_digits)
  then show ?thesis by (simp add: dec_inj)
qed

lemma count_list_take_mono:
  assumes "i < j" "j < length ns" "ns ! i = ns ! j"
  shows "count_list (take i ns) (ns ! i) < count_list (take j ns) (ns ! j)"
proof -
  have "take j ns = take i ns @ (ns ! i) # take (j - Suc i) (drop (Suc i) ns)"
    using assms(1,2)
    by (metis Cons_nth_drop_Suc Suc_diff_Suc drop_take less_trans take_Suc_Cons take_add le_add_diff_inverse less_imp_le_nat)
  then show ?thesis using assms(3) by simp
qed

lemma generate_all_distinct:
  assumes "numbered g pre sfx" "counting g" "\<forall>n\<in>set ns. good_name sfx n"
  shows "distinct (snd (generate_all g ns))"
proof -
  have inh: "\<forall>n\<in>set ns. \<not> inherited n" using assms(3) by (simp add: good_name_def)
  show ?thesis
    unfolding distinct_conv_nth generate_all_length
  proof (intro allI impI)
    fix i j assume i: "i < length ns" and j: "j < length ns" and ne: "i \<noteq> j"
    show "snd (generate_all g ns) ! i \<noteq> snd (generate_all g ns) ! j"
    proof
      assume e: "snd (generate_all g ns) ! i = snd (generate_all g ns) ! j"
      have gi: "good_name sfx (ns ! i)" and gj: "good_name sfx (ns ! j)" using assms(3) i j by simp_all
      from e generate_all_nth [OF assms(1,2) inh i] generate_all_nth [OF assms(1,2) inh j]
      have "pre @ ns ! i @ sfx @ dec (next_num g (ns ! i) + count_list (take i ns) (ns ! i))
          = pre @ ns ! j @ sfx @ dec (next_num g (ns ! j) + count_list (take j ns) (ns ! j))" by simp
      note both = symbol_text_inj [OF gi gj this]
      note same = both [THEN conjunct1] and sums = both [THEN conjunct2]
      from sums have cnt: "count_list (take i ns) (ns ! i) = count_list (take j ns) (ns ! j)"
        unfolding same by simp
      show False
      proof (cases "i < j")
        case True
        from count_list_take_mono [OF True j same] cnt show False by simp
      next
        case False
        with ne have "j < i" by simp
        from count_list_take_mono [OF this i same [symmetric]] cnt show False by simp
      qed
    qed
  qed
qed

lemma markScopeAsUsed_generators [simp]:
  "scopeSymbols (markScopeAsUsed s) = scopeSymbols s"
  "globalSymbols (markScopeAsUsed s) = globalSymbols s"
  by (simp_all add: markScopeAsUsed_def split: list.splits)

lemma globalSymbol_generators:
  "globalSymbols (fst (globalSymbol s n)) = fst (generate (globalSymbols s) n)"
  "scopeSymbols (fst (globalSymbol s n)) = scopeSymbols s"
  "snd (globalSymbol s n) = snd (generate (globalSymbols s) n)"
  by (simp_all add: globalSymbol_def case_prod_beta)

lemma scopeSymbol_generators:
  "scopeSymbols (fst (scopeSymbol s n)) = fst (generate (scopeSymbols s) n)"
  "globalSymbols (fst (scopeSymbol s n)) = globalSymbols s"
  "snd (scopeSymbol s n) = snd (generate (scopeSymbols s) n)"
  by (simp_all add: scopeSymbol_def Let_def case_prod_beta)

lemma run_calls_generate_all:
  "fst (snd (run_calls s cs)) = snd (generate_all (globalSymbols s) (global_names cs))
   \<and> snd (snd (run_calls s cs)) = snd (generate_all (scopeSymbols s) (scope_names cs))"
proof (induction cs arbitrary: s)
  case Nil
  show ?case by simp
next
  case (Cons c cs)
  show ?case
  proof (cases c)
    case (GlobalCall n)
    with Cons [of "fst (globalSymbol s n)"] show ?thesis
      by (simp add: case_prod_beta globalSymbol_generators)
  next
    case (ScopeCall n)
    with Cons [of "fst (scopeSymbol s n)"] show ?thesis
      by (simp add: case_prod_beta scopeSymbol_generators)
  qed
qed

lemma new_numbered:
  "numbered (globalSymbols (new_CompileScope tagToJS reverseObject u))
     (opt_prefix (assign_options u)) (global_suffix tagToJS u)"
  "numbered (scopeSymbols (new_CompileScope tagToJS reverseObject u))
     (opt_scope (assign_options u) @ ''.$_'') []"
  by (simp_all add: numbered_def new_CompileScope_def Let_def new_SymbolGenerator_def
      global_suffix_def numGenerator_def)

lemma new_counting:
  "counting (globalSymbols (new_CompileScope tagToJS reverseObject u))"
  "counting (scopeSymbols (new_CompileScope tagToJS reverseObject u))"
  by (simp_all add: counting_def new_CompileScope_def Let_def new_SymbolGenerator_def)

lemma new_next_num:
  "next_num (globalSymbols (new_CompileScope tagToJS reverseObject u)) n = 0"
  "next_num (scopeSymbols (new_CompileScope tagToJS reverseObject u)) n = 0"
  by (simp_all add: next_num_def new_CompileScope_def Let_def new_SymbolGenerator_def)

lemma same_name_distinct:
  assumes "numbered g pre sfx" "counting g" "\<forall>n\<in>set ns. \<not> inherited n"
    and "i < j" "j < length ns" "ns ! i = ns ! j"
  shows "snd (generate_all g ns) ! i \<noteq> snd (generate_all g ns) ! j"
proof -
  from assms have i: "i < length ns" by simp
  from count_list_take_mono [OF assms(4,5,6)] assms(6)
  have "next_num g (ns ! i) + count_list (take i ns) (ns ! i)
          \<noteq> next_num g (ns ! j) + count_list (take j ns) (ns ! j)" by simp
  then have "dec (next_num g (ns ! i) + count_list (take i ns) (ns ! i))
          \<noteq> dec (next_num g (ns ! j) + count_list (take j ns) (ns ! j))"
    using dec_inj by blast
  then show ?thesis
    using generate_all_nth [OF assms(1,2,3) i] generate_all_nth [OF assms(1,2,3) assms(5)] assms(6)
    by simp
qed


text \<open>
  Claim C1, as the code has it. Take any sequence of calls of \<open>globalSymbol\<close> and
  \<open>scopeSymbol\<close> on a freshly constructed scope in which no requested name is a
  property name inherited from \<open>Object.prototype\<close>. Then the request number \<open>k\<close>
  (counting from 0) for a name returns prefix, name, suffix and the decimal text of
  \<open>k\<close>: per name the number goes up by one with every request and is never used
  twice, so two symbols for the same name differ. Symbols for different names are
  pairwise distinct when no requested name, followed by the suffix of the module's
  symbols, ends in a decimal digit (for persistent-scope symbols: when no requested name
  ends in a digit).
\<close>

theorem symbols_numbered_and_unique:
  fixes tagToJS reverseObject u cs
  defines "s0 \<equiv> new_CompileScope tagToJS reverseObject u"
  defines "gs \<equiv> fst (snd (run_calls s0 cs))" and "ss \<equiv> snd (snd (run_calls s0 cs))"
  defines "gn \<equiv> global_names cs" and "sn \<equiv> scope_names cs"
  assumes "\<forall>n\<in>set gn \<union> set sn. \<not> inherited n"
  shows "length gs = length gn \<and> length ss = length sn
    \<and> (\<forall>i<length gn. gs ! i = opt_prefix (assign_options u) @ gn ! i @ global_suffix tagToJS u
            @ dec (count_list (take i gn) (gn ! i)))
    \<and> (\<forall>i<length sn. ss ! i = opt_scope (assign_options u) @ ''.$_'' @ sn ! i
            @ dec (count_list (take i sn) (sn ! i)))
    \<and> (\<forall>i j. i < j \<and> j < length gn \<and> gn ! i = gn ! j \<longrightarrow> gs ! i \<noteq> gs ! j)
    \<and> (\<forall>i j. i < j \<and> j < length sn \<and> sn ! i = sn ! j \<longrightarrow> ss ! i \<noteq> ss ! j)
    \<and> ((\<forall>n\<in>set gn. \<not> ends_in_digit (n @ global_suffix tagToJS u)) \<longrightarrow> distinct gs)
    \<and> ((\<forall>n\<in>set sn. \<not> ends_in_digit n) \<longrightarrow> distinct ss)"
proof -
  have gs: "gs = snd (generate_all (globalSymbols s0) gn)"
    and ss: "ss = snd (generate_all (scopeSymbols s0) sn)"
    using run_calls_generate_all [of s0 cs] by (simp_all add: gs_def ss_def gn_def sn_def)
  note ng = new_numbered(1) [of tagToJS reverseObject u, folded s0_def]
  note ns = new_numbered(2) [of tagToJS reverseObject u, folded s0_def]
  note cg = new_counting(1) [of tagToJS reverseObject u, folded s0_def]
  note cs' = new_counting(2) [of tagToJS reverseObject u, folded s0_def]
  have ig: "\<forall>n\<in>set gn. \<not> inherited n" and isn: "\<forall>n\<in>set sn. \<not> inherited n"
    using assms(6) by auto
  have l: "length gs = length gn \<and> length ss = length sn"
    by (simp add: gs ss generate_all_length)
  have a: "\<forall>i<length gn. gs ! i = opt_prefix (assign_options u) @ gn ! i @ global_suffix tagToJS u
            @ dec (count_list (take i gn) (gn ! i))"
    using generate_all_nth [OF ng cg ig] by (simp add: gs s0_def new_next_num)
  have b: "\<forall>i<length sn. ss ! i = opt_scope (assign_options u) @ ''.$_'' @ sn ! i
            @ dec (count_list (take i sn) (sn ! i))"
    using generate_all_nth [OF ns cs' isn] by (simp add: ss s0_def new_next_num)
  have c: "\<forall>i j. i < j \<and> j < length gn \<and> gn ! i = gn ! j \<longrightarrow> gs ! i \<noteq> gs ! j"
    using same_name_distinct [OF ng cg ig] by (simp add: gs)
  have d: "\<forall>i j. i < j \<and> j < length sn \<and> sn ! i = sn ! j \<longrightarrow> ss ! i \<noteq> ss ! j"
    using same_name_distinct [OF ns cs' isn] by (simp add: ss)
  have e: "(\<forall>n\<in>set gn. \<not> ends_in_digit (n @ global_suffix tagToJS u)) \<longrightarrow> distinct gs"
    using generate_all_distinct [OF ng cg, of gn] ig by (simp add: gs good_name_def)
  have f: "(\<forall>n\<in>set sn. \<not> ends_in_digit n) \<longrightarrow> distinct ss"
    using generate_all_distinct [OF ns cs', of sn] isn by (simp add: ss good_name_def)
  from l a b c d e f show ?thesis by blast
qed

text \<open>
  An instance: two functions named \<open>template\<close> and two blocks, requested alternately.
\<close>

theorem symbols_numbered_and_unique_witness:
  "fst (snd (run_calls example_scope
      [GlobalCall ''template'', ScopeCall ''block'', GlobalCall ''template'', ScopeCall ''block'']))
     ! 1 = ''$$template1''
   \<and> snd (snd (run_calls example_scope
      [GlobalCall ''template'', ScopeCall ''block'', GlobalCall ''template'', ScopeCall ''block'']))
     ! 1 = ''scope.$_block1''
   \<and> distinct (fst (snd (run_calls example_scope
      [GlobalCall ''template'', ScopeCall ''block'', GlobalCall ''template'', ScopeCall ''block''])))
   \<and> distinct (snd (snd (run_calls example_scope
      [GlobalCall ''template'', ScopeCall ''block'', GlobalCall ''template'', ScopeCall ''block''])))"
proof -
  let ?cs = "[GlobalCall ''template'', ScopeCall ''block'', GlobalCall ''template'', ScopeCall ''block'']"
  have h: "\<forall>n\<in>set (global_names ?cs) \<union> set (scope_names ?cs). \<not> inherited n"
    by (simp add: inherited_def Object_prototype_keys_def)
  have sfx: "global_suffix (\<lambda>_ _. []) default_user = []"
    by (simp add: global_suffix_def assign_options_def default_user_def)
  have opts: "opt_prefix (assign_options default_user) = ''$$''"
    "opt_scope (assign_options default_user) = ''scope''"
    by (simp_all add: assign_options_def default_user_def)
  have d1: "dec (Suc 0) = ''1''"
    by (simp add: dec.simps digit_char_def)
  have g: "\<forall>n\<in>set (global_names ?cs). \<not> ends_in_digit (n @ global_suffix (\<lambda>_ _. []) default_user)"
    by (simp add: sfx ends_in_digit_def is_digit_def)
  have p: "\<forall>n\<in>set (scope_names ?cs). \<not> ends_in_digit n"
    by (simp add: ends_in_digit_def is_digit_def)
  note t = symbols_numbered_and_unique [OF h, of "\<lambda>_ _. []" "\<lambda>_. []" default_user, folded example_scope_def]
  from t have "\<forall>i<length (global_names ?cs). fst (snd (run_calls example_scope ?cs)) ! i
      = opt_prefix (assign_options default_user) @ global_names ?cs ! i
          @ global_suffix (\<lambda>_ _. []) default_user
          @ dec (count_list (take i (global_names ?cs)) (global_names ?cs ! i))"
    by blast
  then have "fst (snd (run_calls example_scope ?cs)) ! 1
      = opt_prefix (assign_options default_user) @ global_names ?cs ! 1
          @ global_suffix (\<lambda>_ _. []) default_user
          @ dec (count_list (take 1 (global_names ?cs)) (global_names ?cs ! 1))"
    by (simp del: run_calls.simps)
  then have c1: "fst (snd (run_calls example_scope ?cs)) ! 1 = ''$$template1''"
    by (simp add: sfx opts d1 del: run_calls.simps)
  from t have "\<forall>i<length (scope_names ?cs). snd (snd (run_calls example_scope ?cs)) ! i
      = opt_scope (assign_options default_user) @ ''.$_'' @ scope_names ?cs ! i
          @ dec (count_list (take i (scope_names ?cs)) (scope_names ?cs ! i))"
    by blast
  then have "snd (snd (run_calls example_scope ?cs)) ! 1
      = opt_scope (assign_options default_user) @ ''.$_'' @ scope_names ?cs ! 1
          @ dec (count_list (take 1 (scope_names ?cs)) (scope_names ?cs ! 1))"
    by (simp del: run_calls.simps)
  then have c2: "snd (snd (run_calls example_scope ?cs)) ! 1 = ''scope.$_block1''"
    by (simp add: opts d1 del: run_calls.simps)
  from t g have c3: "distinct (fst (snd (run_calls example_scope ?cs)))"
    by blast
  from t p have c4: "distinct (snd (snd (run_calls example_scope ?cs)))"
    by blast
  from c1 c2 c3 c4 show ?thesis by blast
qed

text \<open>
  Claim C1 as stated fails: the eleventh persistent-scope symbol for \<open>a\<close> and the
  first one for \<open>a1\<close> are the same text.
\<close>

theorem scope_symbols_collide:
  "snd (snd (run_calls example_scope (replicate 11 (ScopeCall ''a'') @ [ScopeCall ''a1'']))) ! 10
     = ''scope.$_a10''
   \<and> snd (snd (run_calls example_scope (replicate 11 (ScopeCall ''a'') @ [ScopeCall ''a1'']))) ! 11
     = ''scope.$_a10''
   \<and> \<not> distinct (snd (snd (run_calls example_scope
         (replicate 11 (ScopeCall ''a'') @ [ScopeCall ''a1'']))))"
  by code_simp

text \<open>
  A name inherited from \<open>Object.prototype\<close> is not numbered at all: its counter is
  \<open>NaN\<close> from the first request on, and every request returns the same text.
\<close>

lemma inherited_name_repeats:
  "snd (snd (run_calls example_scope [ScopeCall ''constructor'', ScopeCall ''constructor'']))
     = [''scope.$_constructorNaN'', ''scope.$_constructorNaN'']"
  by code_simp

section \<open>Function contexts\<close>

lemma func_enterFunction:
  "func (fst (enterFunction s name ij)) =
     \<lparr> update = [],
       localSymbols = new_SymbolGenerator (PString []) numGenerator,
       updateSymbols = new_SymbolGenerator (PString []) numGenerator,
       updateDeclarations = Map.empty,
       symbol = snd (enterFunction s name ij),
       injector = ij,
       scopeArg = [],
       element = [] \<rparr> # func s"
  by (simp add: enterFunction_def globalSymbol_def case_prod_beta)

lemma options_enterFunction: "options (fst (enterFunction s n ij)) = options s"
  by (simp add: enterFunction_def globalSymbol_def case_prod_beta)

lemma func_example: "func example_scope = []"
  by (simp add: example_scope_def new_CompileScope_def Let_def)

lemma options_example: "options example_scope = assign_options default_user"
  by (simp add: example_scope_def new_CompileScope_def Let_def)

lemma example_option_values:
  "opt_scope (assign_options default_user) = ''scope''"
  "opt_host (assign_options default_user) = ''host''"
  "opt_indent (assign_options default_user) = TAB"
  "opt_prefix (assign_options default_user) = ''$$''"
  by (simp_all add: assign_options_def default_user_def)

lemma markScopeAsUsed_func:
  "func s = f # fs \<Longrightarrow>
   func (markScopeAsUsed s) =
     f\<lparr>scopeArg := (if scopeArg f = [] then ['', '' @ opt_scope (options s)] else scopeArg f)\<rparr> # fs"
  by (simp add: markScopeAsUsed_def)

lemma markScopeAsUsed_options [simp]: "options (markScopeAsUsed s) = options s"
  by (simp add: markScopeAsUsed_def split: list.splits)

lemma markScopeAsUsed_idem: "markScopeAsUsed (markScopeAsUsed s) = markScopeAsUsed s"
  by (simp add: markScopeAsUsed_def split: list.splits)

lemma scopeSymbol_func:
  "func s = f # fs \<Longrightarrow>
   func (fst (scopeSymbol s n)) =
     f\<lparr>scopeArg := (if scopeArg f = [] then ['', '' @ opt_scope (options s)] else scopeArg f)\<rparr> # fs"
  by (simp add: scopeSymbol_def Let_def case_prod_beta markScopeAsUsed_def)

lemma exitFunction_cons:
  "func s = f # fs \<Longrightarrow>
   exitFunction fmt s stmts =
     Inr (s\<lparr>func := fs\<rparr>,
          ''function '' @ symbol f @ ''('' @ function_args s f @ '') {'' @ NL @ opt_indent (options s)
            @ fmt stmts (opt_indent (options s))
            @ (if update f \<noteq> [] then
                 NL @ opt_indent (options s) @ ''return '' @ symbol f @ ''Update;'' @ NL @ ''}'' @ NL @ NL
                   @ ''function '' @ symbol f @ ''Update('' @ function_args s f @ '') {'' @ NL
                   @ opt_indent (options s) @ fmt (update f) (opt_indent (options s)) @ NL @ ''}''
               else NL @ ''}''))"
  by (simp add: exitFunction_def Let_def)

section \<open>\<open>requiresInjector\<close>\<close>

lemma requiresInjector_own_element:
  assumes "func s = f # fs" "element f = e # es"
  shows "requiresInjector s = Inr (requiresInjector_spec s)"
  using assms
  by (auto simp: requiresInjector_def requiresInjector_spec_def inComponent_def get_element_def)

lemma spec_dynamic_ul: "requiresInjector_spec (projr (enterElement (fst (enterFunction example_scope ''template'' None)) dynamic_ul)) = True"
  by (simp add: requiresInjector_spec_def get_element_def enterElement_def func_enterFunction dynamic_ul_def)

lemma spec_static_h1: "requiresInjector_spec (projr (enterElement (fst (enterFunction example_scope ''template'' None)) static_h1)) = False"
  by (simp add: requiresInjector_spec_def get_element_def enterElement_def func_enterFunction static_h1_def
     isComponent_def enterFunction_def globalSymbol_def case_prod_beta example_scope_def new_CompileScope_def Let_def)

text \<open>
  Claim C2, as the code has it. With no current function \<open>requiresInjector\<close> raises.
  When the current function has an open element of its own, the result is what the
  specification says: true iff that element's content is not fully static, or it is
  slot content, or the element is a registered component. When the current function
  has no open element of its own, the result does not depend on any element: it is true
  iff the function was entered with a non-empty injector handle.
\<close>

theorem requiresInjector_cases:
  "(func s = [] \<longrightarrow> requiresInjector s = Inl TypeError)
   \<and> (\<forall>f fs. func s = f # fs \<and> element f \<noteq> [] \<longrightarrow>
         requiresInjector s = Inr (requiresInjector_spec s)
         \<and> requiresInjector_spec s =
             (\<not> staticContent (stats (hd (element f))) \<or> slotContent (stats (hd (element f)))
               \<or> isComponent s (el_name (hd (element f)))))
   \<and> (\<forall>f fs. func s = f # fs \<and> element f = [] \<longrightarrow>
         requiresInjector s = Inr (\<exists>h. injector f = Some h \<and> h \<noteq> []))"
proof (intro conjI allI impI)
  assume "func s = []"
  then show "requiresInjector s = Inl TypeError" by (simp add: requiresInjector_def)
next
  fix f fs assume a: "func s = f # fs \<and> element f \<noteq> []"
  then obtain e es where e: "element f = e # es" by (cases "element f") auto
  with a show "requiresInjector s = Inr (requiresInjector_spec s)"
    by (simp add: requiresInjector_own_element)
  from a e show "requiresInjector_spec s =
             (\<not> staticContent (stats (hd (element f))) \<or> slotContent (stats (hd (element f)))
               \<or> isComponent s (el_name (hd (element f))))"
    by (simp add: requiresInjector_spec_def get_element_def)
next
  fix f fs assume a: "func s = f # fs \<and> element f = []"
  then show "requiresInjector s = Inr (\<exists>h. injector f = Some h \<and> h \<noteq> [])"
    by (cases "injector f") (simp_all add: requiresInjector_def)
qed

text \<open>
  Instances: inside a list with dynamic content, inside a static heading, in a function
  entered with an injector and no element, and with no function at all.
\<close>

theorem requiresInjector_cases_witness:
  "requiresInjector (projr (enterElement (fst (enterFunction example_scope ''template'' None)) dynamic_ul))
     = Inr True
   \<and> requiresInjector (projr (enterElement (fst (enterFunction example_scope ''template'' None)) static_h1))
     = Inr False
   \<and> requiresInjector (fst (enterFunction example_scope ''conditionContent'' (Some ''injector'')))
     = Inr True
   \<and> requiresInjector example_scope = Inl TypeError"
proof -
  let ?s = "fst (enterFunction example_scope ''template'' None)"
  let ?d = "projr (enterElement ?s dynamic_ul)"
  let ?h = "projr (enterElement ?s static_h1)"
  let ?c = "fst (enterFunction example_scope ''conditionContent'' (Some ''injector''))"
  have fd: "func ?d = hd (func ?d) # tl (func ?d) \<and> element (hd (func ?d)) \<noteq> []"
    by (simp add: enterElement_def func_enterFunction)
  have fh: "func ?h = hd (func ?h) # tl (func ?h) \<and> element (hd (func ?h)) \<noteq> []"
    by (simp add: enterElement_def func_enterFunction)
  have fc: "func ?c = hd (func ?c) # tl (func ?c) \<and> element (hd (func ?c)) = []"
    by (simp add: func_enterFunction)
  have f0: "func example_scope = []"
    by (simp add: example_scope_def new_CompileScope_def Let_def)
  have ic: "injector (hd (func ?c)) = Some ''injector''"
    by (simp add: func_enterFunction)
  note td = requiresInjector_cases [of ?d, THEN conjunct2, THEN conjunct1, rule_format, OF fd, THEN conjunct1]
  note th = requiresInjector_cases [of ?h, THEN conjunct2, THEN conjunct1, rule_format, OF fh, THEN conjunct1]
  note tc = requiresInjector_cases [of ?c, THEN conjunct2, THEN conjunct2, rule_format, OF fc]
  note t0 = requiresInjector_cases [of example_scope, THEN conjunct1, rule_format, OF f0]
  from td have 1: "requiresInjector ?d = Inr True" by (simp only: spec_dynamic_ul)
  from th have 2: "requiresInjector ?h = Inr False" by (simp only: spec_static_h1)
  from tc have 3: "requiresInjector ?c = Inr True" by (simp only: ic) simp
  from 1 2 3 t0 show ?thesis by (intro conjI)
qed

text \<open>
  Claim C2 as stated fails in a function that was entered with an injector and has no
  element open, neither its own nor an enclosing one: no element is dynamic, slot
  content or a component, yet \<open>requiresInjector\<close> is true.
\<close>

theorem requiresInjector_spec_fails:
  "requiresInjector (fst (enterFunction example_scope ''partial'' (Some ''injector''))) = Inr True
   \<and> requiresInjector_spec (fst (enterFunction example_scope ''partial'' (Some ''injector''))) = False"
  by (simp add: requiresInjector_def requiresInjector_spec_def get_element_def func_enterFunction
      example_scope_def new_CompileScope_def Let_def)

text \<open>The earlier copy of the method gives the same answer in that state.\<close>

lemma requiresInjector_earlier_without_element:
  "requiresInjector_earlier (fst (enterFunction example_scope ''partial'' (Some ''injector''))) = Inr True"
  by code_simp

text \<open>
  Claim C9, as the code has it. In a state in which the current function has no open
  element of its own, \<open>requiresInjector\<close> is true iff the \<open>injector\<close> of that function
  is a non-empty string; \<open>enterFunction\<close> stores its \<open>injectorSymbol\<close> argument there
  and opens no element, so right after \<open>enterFunction\<close> the result is true iff the
  argument was supplied and is not the empty string.
\<close>

theorem requiresInjector_without_element:
  "(\<forall>f fs. func s = f # fs \<and> element f = [] \<longrightarrow>
       requiresInjector s = Inr (\<exists>h. injector f = Some h \<and> h \<noteq> []))
   \<and> injector (hd (func (fst (enterFunction s name ij)))) = ij
   \<and> element (hd (func (fst (enterFunction s name ij)))) = []
   \<and> requiresInjector (fst (enterFunction s name ij)) = Inr (\<exists>h. ij = Some h \<and> h \<noteq> [])"
proof (intro conjI allI impI)
  fix f fs assume "func s = f # fs \<and> element f = []"
  then show "requiresInjector s = Inr (\<exists>h. injector f = Some h \<and> h \<noteq> [])"
    by (cases "injector f") (simp_all add: requiresInjector_def)
next
  show "injector (hd (func (fst (enterFunction s name ij)))) = ij"
    by (simp add: func_enterFunction)
  show "element (hd (func (fst (enterFunction s name ij)))) = []"
    by (simp add: func_enterFunction)
  show "requiresInjector (fst (enterFunction s name ij)) = Inr (\<exists>h. ij = Some h \<and> h \<noteq> [])"
    by (cases ij) (simp_all add: requiresInjector_def func_enterFunction)
qed

text \<open>Instances: a function entered with the handle \<open>injector\<close>, and one entered without.\<close>

theorem requiresInjector_without_element_witness:
  "requiresInjector (fst (enterFunction example_scope ''iteratorBlock'' (Some ''injector''))) = Inr True
   \<and> requiresInjector (fst (enterFunction example_scope ''iteratorExpr'' None)) = Inr False"
proof -
  from requiresInjector_without_element [of example_scope "''iteratorBlock''" "Some ''injector''"]
  have 1: "requiresInjector (fst (enterFunction example_scope ''iteratorBlock'' (Some ''injector''))) = Inr True"
    by simp
  from requiresInjector_without_element [of example_scope "''iteratorExpr''" None]
  have 2: "requiresInjector (fst (enterFunction example_scope ''iteratorExpr'' None)) = Inr False"
    by simp
  from 1 2 show ?thesis by blast
qed

text \<open>
  Claim C9 as stated fails for a handle that is supplied but empty: \<open>!!''\<close> is false.
\<close>

theorem empty_injector_symbol:
  "injector (hd (func (fst (enterFunction example_scope ''template'' (Some []))))) = Some []
   \<and> requiresInjector (fst (enterFunction example_scope ''template'' (Some []))) = Inr False"
  by (simp add: requiresInjector_def func_enterFunction)

section \<open>The persistent-scope argument\<close>

lemma import_components_frame:
  "func (fst (import_components qStr s xs)) = func s
   \<and> options (fst (import_components qStr s xs)) = options s"
  by (induction xs arbitrary: s) (auto simp: Let_def case_prod_beta warn_def)

lemma compile_frame:
  "func (fst (compile qStr isIdentifier s)) = func s"
  "options (fst (compile qStr isIdentifier s)) = options s"
  by (simp_all add: compile_def Let_def case_prod_beta import_components_frame)

lemma checkComponent_frame:
  "func (checkComponent s el) = func s" "options (checkComponent s el) = options s"
  by (simp_all add: checkComponent_def warn_def split: option.splits)

lemma exec_options: "exec c s = Inr s' \<Longrightarrow> options s' = options s"
  by (cases c)
     (auto simp: scope_after_def globalSymbol_def scopeSymbol_def localSymbol_def get_scope_def
        use_def useHelper_def useStore_def push_def pushUpdate_def updateSymbol_def
        enterFunction_def exitFunction_def enterElement_def exitElement_def enterNamespace_def
        exitNamespace_def localInjector_def scopeInjector_def compile_frame checkComponent_frame
        markScopeAsUsed_def Let_def case_prod_beta
      split: list.splits option.splits if_splits sum.splits)

lemma lazy_body_plain:
  "plain c \<Longrightarrow> lazy_body d (c # cs) = ((0 < d \<or> \<not> references_scope c) \<and> lazy_body d cs)"
  by (cases c) (simp_all add: plain_def)

lemma exec_plain_empty:
  "plain c \<Longrightarrow> exec c s = Inr s' \<Longrightarrow> func s = [] \<Longrightarrow> func s' = []"
  by (cases c)
     (auto simp: plain_def scope_after_def globalSymbol_def scopeSymbol_def localSymbol_def get_scope_def
        use_def useHelper_def useStore_def push_def pushUpdate_def updateSymbol_def
        enterElement_def exitElement_def enterNamespace_def
        exitNamespace_def localInjector_def scopeInjector_def compile_frame checkComponent_frame
        markScopeAsUsed_def Let_def case_prod_beta
      split: list.splits option.splits if_splits sum.splits)

lemma exec_plain_head:
  assumes "plain c" "exec c s = Inr s'" "func s = h # r"
  shows "\<exists>h'. func s' = h' # r \<and> symbol h' = symbol h \<and> injector h' = injector h
           \<and> (\<not> references_scope c \<longrightarrow> scopeArg h' = scopeArg h)"
  using assms
  by (cases c)
     (auto simp: plain_def scope_after_def globalSymbol_def scopeSymbol_def localSymbol_def get_scope_def
        use_def useHelper_def useStore_def push_def pushUpdate_def updateSymbol_def
        enterElement_def exitElement_def enterNamespace_def
        exitNamespace_def localInjector_def scopeInjector_def compile_frame checkComponent_frame
        markScopeAsUsed_def Let_def case_prod_beta
      split: list.splits option.splits if_splits sum.splits)

lemma exec_enter: "exec (Op_enterFunction n ij) s = Inr s' \<Longrightarrow> \<exists>h. func s' = h # func s"
  by (auto simp: func_enterFunction)

lemma exec_exit:
  "exec (Op_exitFunction fmt stmts) s = Inr s' \<Longrightarrow> func s = h # r \<Longrightarrow> func s' = r"
  by (auto simp: scope_after_def exitFunction_def Let_def split: sum.splits)

lemma op_kinds:
  obtains (enter) n ij where "c = Op_enterFunction n ij"
  | (exit) fmt stmts where "c = Op_exitFunction fmt stmts"
  | (plain) "plain c"
  by (cases c) (auto simp: plain_def)

lemma lazy_body_keeps:
  assumes "run_ops cs s = Inr s'" "func s = inner @ f # fs" "lazy_body (length inner) cs"
  shows "\<exists>f'. func s' = f' # fs \<and> symbol f' = symbol f \<and> injector f' = injector f
           \<and> scopeArg f' = scopeArg f"
  using assms
proof (induction cs arbitrary: s inner f)
  case Nil
  then show ?case by simp
next
  case (Cons c cs)
  from Cons.prems(1) obtain s1 where s1: "exec c s = Inr s1" and rest: "run_ops cs s1 = Inr s'"
    by (auto split: sum.splits)
  show ?case
  proof (cases c rule: op_kinds)
    case (enter n ij)
    with s1 obtain h where "func s1 = h # func s" using exec_enter by blast
    with Cons.prems(2) have f1: "func s1 = (h # inner) @ f # fs" by simp
    from Cons.prems(3) enter have "lazy_body (length (h # inner)) cs" by simp
    from Cons.IH [OF rest f1 this] show ?thesis .
  next
    case (exit fmt stmts)
    with Cons.prems(3) have d: "0 < length inner" and l: "lazy_body (length inner - 1) cs" by simp_all
    from d obtain h inner' where i: "inner = h # inner'" by (cases inner) auto
    with Cons.prems(2) have "func s = h # inner' @ f # fs" by simp
    from exec_exit [OF s1 [unfolded exit] this] have f1: "func s1 = inner' @ f # fs" .
    from l i have "lazy_body (length inner') cs" by simp
    from Cons.IH [OF rest f1 this] show ?thesis .
  next
    case plain
    from Cons.prems(3) [unfolded lazy_body_plain [OF plain]]
    have q: "0 < length inner \<or> \<not> references_scope c" and l: "lazy_body (length inner) cs"
      by blast+
    show ?thesis
    proof (cases inner)
      case Nil
      with Cons.prems(2) have "func s = f # fs" by simp
      from exec_plain_head [OF plain s1 this] q Nil obtain f1 where
        f1: "func s1 = f1 # fs" "symbol f1 = symbol f" "injector f1 = injector f" "scopeArg f1 = scopeArg f"
        by auto
      from f1(1) have "func s1 = [] @ f1 # fs" by simp
      from Cons.IH [OF rest this] l Nil f1 show ?thesis by simp
    next
      case (Cons h inner')
      with Cons.prems(2) have "func s = h # inner' @ f # fs" by simp
      from exec_plain_head [OF plain s1 this] obtain h' where "func s1 = h' # inner' @ f # fs" by auto
      then have f1: "func s1 = (h' # inner') @ f # fs" by simp
      from l Cons have "lazy_body (length (h' # inner')) cs" by simp
      from Cons.IH [OF rest f1 this] show ?thesis .
    qed
  qed
qed

lemma run_ops_options: "run_ops cs s = Inr s' \<Longrightarrow> options s' = options s"
proof (induction cs arbitrary: s)
  case Nil
  then show ?case by simp
next
  case (Cons c cs)
  then obtain s1 where "exec c s = Inr s1" "run_ops cs s1 = Inr s'" by (auto split: sum.splits)
  with Cons.IH [of s1] exec_options [of c s s1] show ?case by simp
qed


text \<open>
  Claim C3, as the code has it. \<open>scopeSymbol\<close> marks the current function only: its
  \<open>scopeArg\<close> becomes \<open>, <scope>\<close> when it was empty, and every ancestor on the stack
  stays as it was. The scope argument is lazy: take a function entered by
  \<open>enterFunction\<close> and any calls that make up its body, among them whole nested
  functions that may reference persisted state as they like. If no call made while the
  function itself is the current one references persisted state (\<open>scopeSymbol\<close>, the
  getter \<open>scope\<close>, \<open>scopeInjector\<close>), then the enclosing functions are as they were,
  and \<open>exitFunction\<close> emits the function with the host and the injector handle as its
  only arguments; one \<open>scopeSymbol\<close> more in the function itself, and the scope argument
  is in the signature.
\<close>

theorem scope_argument_current_and_lazy:
  "(\<forall>f fs. func s = f # fs \<longrightarrow>
      func (fst (scopeSymbol s n)) =
        f\<lparr>scopeArg := (if scopeArg f = [] then ['', '' @ opt_scope (options s)] else scopeArg f)\<rparr> # fs)
   \<and> (\<forall>cs s'. lazy_body 0 cs \<and> run_ops cs (fst (enterFunction s name ij)) = Inr s' \<longrightarrow>
         tl (func s') = func s
         \<and> (\<exists>rest. emitted (exitFunction fmt s' stmts) =
               Some (''function '' @ snd (enterFunction s name ij) @ ''('' @ opt_host (options s)
                      @ injector_arg ij @ '') {'' @ rest))
         \<and> (\<exists>rest. emitted (exitFunction fmt (fst (scopeSymbol s' n)) stmts) =
               Some (''function '' @ snd (enterFunction s name ij) @ ''('' @ opt_host (options s)
                      @ injector_arg ij @ '', '' @ opt_scope (options s) @ '') {'' @ rest)))"
proof (intro conjI allI impI)
  fix f fs assume "func s = f # fs"
  then show "func (fst (scopeSymbol s n)) =
        f\<lparr>scopeArg := (if scopeArg f = [] then ['', '' @ opt_scope (options s)] else scopeArg f)\<rparr> # fs"
    by (rule scopeSymbol_func)
next
  fix cs s'
  assume a: "lazy_body 0 cs \<and> run_ops cs (fst (enterFunction s name ij)) = Inr s'"
  let ?e = "fst (enterFunction s name ij)"
  let ?sy = "snd (enterFunction s name ij)"
  have fe: "func ?e = [] @ hd (func ?e) # func s" by (simp add: func_enterFunction)
  from a have l: "lazy_body (length ([] :: FunctionContext list)) cs" by simp
  from a have r: "run_ops cs ?e = Inr s'" by simp
  from lazy_body_keeps [OF r fe l] obtain f' where
    f': "func s' = f' # func s" "symbol f' = ?sy" "injector f' = ij" "scopeArg f' = []"
    by (auto simp: func_enterFunction)
  from run_ops_options [OF r] have o: "options s' = options s" by (simp add: options_enterFunction)
  from f'(1) show "tl (func s') = func s" by simp
  from f' o show "\<exists>rest. emitted (exitFunction fmt s' stmts) =
               Some (''function '' @ ?sy @ ''('' @ opt_host (options s)
                      @ injector_arg ij @ '') {'' @ rest)"
    by (simp add: exitFunction_cons emitted_def function_args_def injector_arg_def)
  have m: "func (fst (scopeSymbol s' n)) = f'\<lparr>scopeArg := ['', '' @ opt_scope (options s')]\<rparr> # func s"
    using scopeSymbol_func [OF f'(1), of n] f'(4) by simp
  have o2: "options (fst (scopeSymbol s' n)) = options s'"
    by (simp add: scopeSymbol_def Let_def case_prod_beta)
  from m o o2 f' show "\<exists>rest. emitted (exitFunction fmt (fst (scopeSymbol s' n)) stmts) =
               Some (''function '' @ ?sy @ ''('' @ opt_host (options s)
                      @ injector_arg ij @ '', '' @ opt_scope (options s) @ '') {'' @ rest)"
    by (simp add: exitFunction_cons emitted_def function_args_def injector_arg_def)
qed

text \<open>
  Instances: a persistent symbol requested three functions deep marks the innermost
  function only; a template function whose nested function requests a persistent symbol
  is emitted as \<open>(host)\<close>, and as \<open>(host, scope)\<close> once it requests one itself.
\<close>

theorem scope_argument_current_and_lazy_witness:
  "map scopeArg (func (fst (scopeSymbol
      (fst (enterFunction
         (fst (enterFunction (fst (enterFunction example_scope ''template'' None))
            ''conditionContent'' (Some ''injector'')))
         ''iteratorBlock'' (Some ''injector'')))
      ''iter'')))
   = [['', scope''], [], []]
   \<and> (\<exists>rest. emitted (exitFunction format_lines
          (projr (run_ops template_body (fst (enterFunction example_scope ''template'' None))))
          [''const target0 = host.componentView;''])
        = Some (''function $$template0(host) {'' @ rest))
   \<and> (\<exists>rest. emitted (exitFunction format_lines
          (fst (scopeSymbol
             (projr (run_ops template_body (fst (enterFunction example_scope ''template'' None))))
             ''iter''))
          [''const target0 = host.componentView;''])
        = Some (''function $$template0(host, scope) {'' @ rest))"
proof -
  let ?a = "fst (enterFunction example_scope ''template'' None)"
  let ?b = "fst (enterFunction ?a ''conditionContent'' (Some ''injector''))"
  let ?c = "fst (enterFunction ?b ''iteratorBlock'' (Some ''injector''))"
  let ?r = "projr (run_ops template_body ?a)"
  have fc: "func ?c = hd (func ?c) # tl (func ?c)"
    by (simp add: func_enterFunction)
  note t1 = scope_argument_current_and_lazy [where s = ?c and n = "''iter''",
      THEN conjunct1, rule_format, OF fc]
  have 1: "map scopeArg (func (fst (scopeSymbol ?c ''iter''))) = [['', scope''], [], []]"
    unfolding t1
    by (simp add: func_enterFunction func_example options_enterFunction options_example
        example_option_values)
  have lz: "lazy_body 0 template_body"
    by code_simp
  have "\<not> isl (run_ops template_body ?a)"
    by code_simp
  then have rn: "run_ops template_body ?a = Inr ?r"
    by simp
  have sy: "snd (enterFunction example_scope ''template'' None) = ''$$template0''"
    by code_simp
  have ia: "injector_arg None = []"
    by (simp add: injector_arg_def)
  note t2 = scope_argument_current_and_lazy [where s = example_scope and name = "''template''"
      and ij = None and n = "''iter''" and fmt = format_lines
      and stmts = "[''const target0 = host.componentView;'']",
      THEN conjunct2, rule_format, of template_body ?r, OF conjI [OF lz rn]]
  from t2 [THEN conjunct2, THEN conjunct1]
  have 2: "\<exists>rest. emitted (exitFunction format_lines ?r [''const target0 = host.componentView;''])
        = Some (''function $$template0(host) {'' @ rest)"
    by (simp add: sy ia options_example example_option_values)
  from t2 [THEN conjunct2, THEN conjunct2]
  have 3: "\<exists>rest. emitted (exitFunction format_lines (fst (scopeSymbol ?r ''iter''))
          [''const target0 = host.componentView;''])
        = Some (''function $$template0(host, scope) {'' @ rest)"
    by (simp add: sy ia options_example example_option_values)
  from 1 2 3 show ?thesis by (intro conjI)
qed

text \<open>
  Claim C3 as stated fails: after \<open>scopeSymbol\<close> in a nested function the enclosing
  function is still unmarked.
\<close>

theorem ancestors_not_marked:
  "map scopeArg (func (fst (scopeSymbol
      (fst (enterFunction (fst (enterFunction example_scope ''template'' None))
         ''conditionContent'' (Some ''injector''))) ''block'')))
   = [['', scope''], []]"
  by code_simp

section \<open>\<open>exitFunction\<close>\<close>

text \<open>
  Claim C5, as the code has it. \<open>exitFunction\<close> pops the current function. When update
  statements were recorded, the mount function ends with \<open>return <symbol>Update;\<close> and
  a second function \<open><symbol>Update\<close> with the same argument list follows, holding
  the update statements. When none was recorded, the text is the mount function alone,
  with the caller's statements between its braces: \<open>exitFunction\<close> adds no return
  statement of its own (the statements it was given may contain one).
\<close>

theorem exitFunction_output:
  assumes "func s = f # fs"
  shows "(update f \<noteq> [] \<longrightarrow>
            exitFunction fmt s stmts =
              Inr (s\<lparr>func := fs\<rparr>,
                   ''function '' @ symbol f @ ''('' @ function_args s f @ '') {'' @ NL
                     @ opt_indent (options s) @ fmt stmts (opt_indent (options s)) @ NL
                     @ opt_indent (options s) @ ''return '' @ symbol f @ ''Update;'' @ NL @ ''}''
                     @ NL @ NL
                     @ ''function '' @ symbol f @ ''Update('' @ function_args s f @ '') {'' @ NL
                     @ opt_indent (options s) @ fmt (update f) (opt_indent (options s)) @ NL @ ''}''))
       \<and> (update f = [] \<longrightarrow>
            exitFunction fmt s stmts =
              Inr (s\<lparr>func := fs\<rparr>,
                   ''function '' @ symbol f @ ''('' @ function_args s f @ '') {'' @ NL
                     @ opt_indent (options s) @ fmt stmts (opt_indent (options s)) @ NL @ ''}''))"
  using assms by (simp add: exitFunction_cons)

text \<open>
  Instances: a template function with one update statement, and a content function
  with none.
\<close>

theorem exitFunction_output_witness:
  "emitted (exitFunction format_lines
      (projr (pushUpdate (fst (enterFunction example_scope ''template'' None))
         ''updateBlock(scope.$_block1);''))
      [''const target0 = host.componentView;''])
   = Some (''function $$template0(host) {'' @ NL @ TAB @ ''const target0 = host.componentView;'' @ NL
        @ TAB @ ''return $$template0Update;'' @ NL @ ''}'' @ NL @ NL
        @ ''function $$template0Update(host) {'' @ NL @ TAB @ ''updateBlock(scope.$_block1);'' @ NL @ ''}'')
   \<and> emitted (exitFunction format_lines
      (fst (enterFunction example_scope ''conditionContent'' (Some ''injector'')))
      [''insert(injector, node);''])
   = Some (''function $$conditionContent0(host, injector) {'' @ NL @ TAB @ ''insert(injector, node);'' @ NL @ ''}'')"
proof -
  let ?s = "fst (enterFunction example_scope ''template'' None)"
  let ?u = "projr (pushUpdate ?s ''updateBlock(scope.$_block1);'')"
  let ?c = "fst (enterFunction example_scope ''conditionContent'' (Some ''injector''))"
  have fu: "func ?u = hd (func ?u) # tl (func ?u)"
    by (simp add: pushUpdate_def func_enterFunction)
  have uu: "update (hd (func ?u)) = [''updateBlock(scope.$_block1);'']"
    by (simp add: pushUpdate_def func_enterFunction)
  have su: "symbol (hd (func ?u)) = ''$$template0''"
    by code_simp
  have au: "function_args ?u (hd (func ?u)) = ''host''"
    by code_simp
  have iu: "opt_indent (options ?u) = TAB"
    by code_simp
  have fc: "func ?c = hd (func ?c) # tl (func ?c)"
    by (simp add: func_enterFunction)
  have uc: "update (hd (func ?c)) = []"
    by (simp add: func_enterFunction)
  have sc: "symbol (hd (func ?c)) = ''$$conditionContent0''"
    by code_simp
  have ac: "function_args ?c (hd (func ?c)) = ''host, injector''"
    by code_simp
  have ic: "opt_indent (options ?c) = TAB"
    by code_simp
  from exitFunction_output [OF fu, of format_lines "[''const target0 = host.componentView;'']"] uu
  have "exitFunction format_lines ?u [''const target0 = host.componentView;''] =
      Inr (?u\<lparr>func := tl (func ?u)\<rparr>,
           ''function '' @ symbol (hd (func ?u)) @ ''('' @ function_args ?u (hd (func ?u)) @ '') {'' @ NL
             @ opt_indent (options ?u)
             @ format_lines [''const target0 = host.componentView;''] (opt_indent (options ?u)) @ NL
             @ opt_indent (options ?u) @ ''return '' @ symbol (hd (func ?u)) @ ''Update;'' @ NL @ ''}''
             @ NL @ NL
             @ ''function '' @ symbol (hd (func ?u)) @ ''Update('' @ function_args ?u (hd (func ?u))
             @ '') {'' @ NL
             @ opt_indent (options ?u) @ format_lines (update (hd (func ?u))) (opt_indent (options ?u))
             @ NL @ ''}'')"
    by simp
  then have 1: "emitted (exitFunction format_lines ?u [''const target0 = host.componentView;''])
   = Some (''function $$template0(host) {'' @ NL @ TAB @ ''const target0 = host.componentView;'' @ NL
        @ TAB @ ''return $$template0Update;'' @ NL @ ''}'' @ NL @ NL
        @ ''function $$template0Update(host) {'' @ NL @ TAB @ ''updateBlock(scope.$_block1);'' @ NL @ ''}'')"
    by (simp add: emitted_def su au iu uu format_lines_def)
  from exitFunction_output [OF fc, of format_lines "[''insert(injector, node);'']"] uc
  have "exitFunction format_lines ?c [''insert(injector, node);''] =
      Inr (?c\<lparr>func := tl (func ?c)\<rparr>,
           ''function '' @ symbol (hd (func ?c)) @ ''('' @ function_args ?c (hd (func ?c)) @ '') {'' @ NL
             @ opt_indent (options ?c)
             @ format_lines [''insert(injector, node);''] (opt_indent (options ?c)) @ NL @ ''}'')"
    by simp
  then have 2: "emitted (exitFunction format_lines ?c [''insert(injector, node);''])
   = Some (''function $$conditionContent0(host, injector) {'' @ NL @ TAB @ ''insert(injector, node);'' @ NL @ ''}'')"
    by (simp add: emitted_def sc ac ic format_lines_def)
  from 1 2 show ?thesis by (intro conjI)
qed

text \<open>
  Claim C5 as stated fails: a function without update statements whose body is a return
  statement, as \<open>$$iteratorExpr0\<close> of the test fixtures, is emitted with that return
  statement.
\<close>

theorem static_function_with_return:
  "update (hd (func (fst (enterFunction example_scope ''iteratorExpr'' None)))) = []
   \<and> emitted (exitFunction format_lines (fst (enterFunction example_scope ''iteratorExpr'' None))
          [''return host.props.items;''])
     = Some (''function $$iteratorExpr0(host) {'' @ NL @ TAB @ ''return host.props.items;'' @ NL @ ''}'')"
  by code_simp

section \<open>\<open>updateSymbol\<close>\<close>

text \<open>
  For an expression text that is not a property name inherited from \<open>Object.prototype\<close>,
  two requests in the same function return the same alias, and the evaluation statement
  is put in front of the update list by the first request only.
\<close>

lemma updateSymbol_memo:
  assumes "func s = f # fs" "\<not> inherited v"
  shows "\<exists>s1 a. updateSymbol s n1 v = Inr (s1, Str a) \<and> updateSymbol s1 n2 v = Inr (s1, Str a)
           \<and> (updateDeclarations f v = None \<longrightarrow>
                 a = snd (generate (updateSymbols f) n1)
                 \<and> map update (func s1) = ((''const '' @ a @ '' = '' @ v @ '';'') # update f) # map update fs)
           \<and> (updateDeclarations f v \<noteq> None \<longrightarrow> s1 = s)"
proof (cases "updateDeclarations f v")
  case None
  with assms show ?thesis
    by (simp add: updateSymbol_def Let_def case_prod_beta lookup_prop_def)
next
  case (Some a)
  with assms show ?thesis
    by (simp add: updateSymbol_def lookup_prop_def)
qed

text \<open>
  Claim C4 at the expression text \<open>toString\<close>: \<open>'toString' in {}\<close> is true, so the
  first request already takes the memoized branch. It returns the inherited function,
  not an alias, changes nothing and emits no evaluation statement.
\<close>

theorem updateSymbol_inherited_text:
  "updateSymbol (fst (enterFunction example_scope ''template'' None)) ''attrValue'' ''toString''
     = Inr (fst (enterFunction example_scope ''template'' None), ProtoMember ''toString'')
   \<and> update (hd (func (fst (enterFunction example_scope ''template'' None)))) = []"
  by (simp add: updateSymbol_def func_enterFunction lookup_prop_def inherited_def Object_prototype_keys_def)

section \<open>Warnings\<close>

lemma missing_message_inj: "missing_message a = missing_message b \<Longrightarrow> a = b"
  by (simp add: missing_message_def)

lemma warn_fields [simp]:
  "warned (warn s m p) = warned s"
  "options (warn s m p) = options s"
  "componentsMap (warn s m p) = componentsMap s"
  by (simp_all add: warn_def)

lemma warn_calls_warn:
  "warn_calls (warn s m p) = warn_calls s @ (if opt_warn (options s) then [(m, p)] else [])"
  by (simp add: warn_def)

lemma checkComponent_second:
  fixes n n' :: ENDElement
  assumes "tagName n' = tagName n"
  shows "warn_calls (checkComponent (checkComponent s n) n') = warn_calls (checkComponent s n)"
proof (cases "map_of (componentsMap s) (tagName n)")
  case (Some d)
  have "map_of (map_set k v xs) k = Some v" for k :: string and v :: ComponentImport and xs
    by (induction xs) auto
  with Some assms show ?thesis by (simp add: checkComponent_def)
next
  case None
  with assms show ?thesis by (simp add: checkComponent_def warn_calls_warn)
qed

lemma once_checkComponent: "once s \<Longrightarrow> once (checkComponent s n)"
proof -
  assume o: "once s"
  show ?thesis
  proof (cases "map_of (componentsMap s) (tagName n) = None \<and> CHR ''-'' \<in> set (tagName n) \<and> tagName n \<notin> set (warned s)")
    case False
    have "missing_count t (checkComponent s n) = missing_count t s \<and> warned (checkComponent s n) = warned s" for t
      using False by (auto simp: checkComponent_def missing_count_def split: option.splits)
    with o show ?thesis by (simp add: once_def)
  next
    case True
    from o [unfolded once_def, rule_format, of "tagName n"] True
    have z: "missing_count (tagName n) s = 0" by simp
    show ?thesis unfolding once_def
    proof
      fix t
      show "missing_count t (checkComponent s n) \<le> (if t \<in> set (warned (checkComponent s n)) then 1 else 0)"
      proof (cases "t = tagName n")
        case t: True
        with True z show ?thesis
          by (simp add: checkComponent_def missing_count_def warn_calls_warn)
      next
        case f: False
        then have "missing_message t \<noteq> missing_message (tagName n)" using missing_message_inj by blast
        then have "missing_count t (checkComponent s n) = missing_count t s"
          using True by (simp add: checkComponent_def missing_count_def warn_calls_warn)
        moreover have "set (warned s) \<subseteq> set (warned (checkComponent s n))"
          using True by (auto simp: checkComponent_def)
        ultimately show ?thesis using o [unfolded once_def, rule_format, of t]
          by (auto split: if_splits)
      qed
    qed
  qed
qed

lemma warn_other_fields [simp]:
  "usedHelpers (warn s m p) = usedHelpers s"
  "helpers (warn s m p) = helpers s"
  "partialsMap (warn s m p) = partialsMap s"
  "namespacesMap (warn s m p) = namespacesMap s"
  "body (warn s m p) = body s"
  "runtimeSymbols (warn s m p) = runtimeSymbols s"
  by (simp_all add: warn_def)

lemma import_components_result:
  "import_components qStr s xs =
     (s\<lparr>warn_calls := warn_calls s
          @ (if opt_warn (options s) then import_warnings (opt_removeUnusedImports (options s)) xs else [])\<rparr>,
      concat (map (\<lambda>e. import_line qStr (snd e))
        (if opt_removeUnusedImports (options s) then filter (\<lambda>e. used (snd e)) xs else xs)))"
proof (induction xs arbitrary: s)
  case Nil
  show ?case by (simp add: import_warnings_def)
next
  case (Cons x xs)
  obtain name item where x: "x = (name, item)" by (cases x)
  show ?case
  proof (cases "used item")
    case True
    with x Cons [of s] show ?thesis by (simp add: import_warnings_def)
  next
    case False
    with x Cons [of "warn s (unused_message (opt_removeUnusedImports (options s)) name) (node_pos item)"]
    show ?thesis
      by (simp add: import_warnings_def Let_def warn_def)
  qed
qed

lemma after_imports_cong:
  assumes "usedHelpers a = usedHelpers b" "helpers a = helpers b" "partialsMap a = partialsMap b"
    "namespacesMap a = namespacesMap b" "body a = body b"
    "opt_cssScope (options a) = opt_cssScope (options b)"
    "opt_partials (options a) = opt_partials (options b)"
    "opt_indent (options a) = opt_indent (options b)"
  shows "after_imports qStr isIdentifier a = after_imports qStr isIdentifier b"
  using assms by (simp add: after_imports_def getHelpersMap_def)

lemma compile_result:
  "compile qStr isIdentifier s =
     (s\<lparr>warn_calls := warn_calls s
          @ (if opt_warn (options s)
             then import_warnings (opt_removeUnusedImports (options s)) (componentsMap s) else [])\<rparr>,
      runtime_import s
        @ concat (map (\<lambda>e. import_line qStr (snd e))
            (if opt_removeUnusedImports (options s) then used_imports s else componentsMap s))
        @ after_imports qStr isIdentifier s)"
proof -
  let ?s1 = "s\<lparr>warn_calls := warn_calls s
          @ (if opt_warn (options s)
             then import_warnings (opt_removeUnusedImports (options s)) (componentsMap s) else [])\<rparr>"
  have a: "after_imports qStr isIdentifier ?s1 = after_imports qStr isIdentifier s"
    by (rule after_imports_cong) simp_all
  show ?thesis
    unfolding compile_def import_components_result
    by (simp add: Let_def a [unfolded after_imports_def] after_imports_def used_imports_def getHelpersMap_def)
qed

lemma log_markScopeAsUsed [simp]:
  "warned (markScopeAsUsed s) = warned s" "warn_calls (markScopeAsUsed s) = warn_calls s"
  by (simp_all add: markScopeAsUsed_def split: list.splits)

lemma unused_not_missing: "unused_message b n \<noteq> missing_message t"
  by (simp add: unused_message_def missing_message_def)

lemma missing_count_import_warnings:
  "filter (\<lambda>w. fst w = missing_message t) (import_warnings b xs) = []"
  by (induction xs) (simp_all add: import_warnings_def unused_not_missing)

lemma once_log:
  assumes "once s" "warned s' = warned s" "warn_calls s' = warn_calls s"
  shows "once s'"
  using assms by (simp add: once_def missing_count_def)

lemma once_compile: "once s \<Longrightarrow> once (fst (compile qStr isIdentifier s))"
  by (simp add: compile_result once_def missing_count_def missing_count_import_warnings)

lemma once_step: "step s s' \<Longrightarrow> once s \<Longrightarrow> once s'"
proof (induction rule: step.induct)
  case (step_checkComponent s el)
  then show ?case by (simp add: once_checkComponent)
next
  case (step_compile s qStr isIdentifier)
  then show ?case by (simp add: once_compile)
qed (auto elim!: once_log
      simp: globalSymbol_def scopeSymbol_def localSymbol_def use_def useHelper_def useStore_def
        push_def pushUpdate_def updateSymbol_def enterFunction_def exitFunction_def enterElement_def
        exitElement_def enterNamespace_def exitNamespace_def scopeInjector_def get_scope_def
        Let_def case_prod_beta
      split: list.splits option.splits if_splits)

lemma once_reachable: "reachable s \<Longrightarrow> once s"
proof (induction rule: reachable.induct)
  case (reachable_new tagToJS reverseObject u)
  show ?case by (simp add: once_def missing_count_def new_CompileScope_def Let_def)
next
  case (reachable_step s s')
  then show ?case by (simp add: once_step)
qed

text \<open>
  Claim C10. A second \<open>checkComponent\<close> for the same tag name never adds a warning,
  whatever the first call did; and in every scope that a sequence of method calls makes
  of a freshly constructed one, the callback has been told at most once that the
  component of a given tag is missing.
\<close>

theorem missing_warning_once:
  "(\<forall>n n' :: ENDElement. tagName n' = tagName n \<longrightarrow>
       warn_calls (checkComponent (checkComponent s n) n') = warn_calls (checkComponent s n))
   \<and> (reachable s \<longrightarrow> (\<forall>t. missing_count t s \<le> 1))"
proof (intro conjI allI impI)
  fix n n' :: ENDElement assume "tagName n' = tagName n"
  then show "warn_calls (checkComponent (checkComponent s n) n') = warn_calls (checkComponent s n)"
    by (rule checkComponent_second)
next
  fix t assume "reachable s"
  then have "once s" by (rule once_reachable)
  from this [unfolded once_def, rule_format, of t]
  show "missing_count t s \<le> 1"
    by (auto split: if_splits)
qed

text \<open>
  An instance: the unresolved tag \<open>x-foo\<close> checked at positions 80 and 90 is reported
  once, at position 80.
\<close>

theorem missing_warning_once_witness:
  "warn_calls (checkComponent (checkComponent warning_scope (x_foo 80)) (x_foo 90))
     = [(missing_message ''x-foo'', 80)]
   \<and> missing_count ''x-foo'' (checkComponent (checkComponent warning_scope (x_foo 80)) (x_foo 90)) \<le> 1"
proof -
  let ?s = "checkComponent (checkComponent warning_scope (x_foo 80)) (x_foo 90)"
  have same: "tagName (x_foo 90) = tagName (x_foo 80)"
    by (simp add: x_foo_def)
  have first: "warn_calls (checkComponent warning_scope (x_foo 80)) = [(missing_message ''x-foo'', 80)]"
    by code_simp
  have "reachable warning_scope"
    unfolding warning_scope_def by (rule reachable_new)
  then have "reachable (checkComponent warning_scope (x_foo 80))"
    by (rule reachable_step) (rule step_checkComponent)
  then have r: "reachable ?s"
    by (rule reachable_step) (rule step_checkComponent)
  from missing_warning_once [of warning_scope] same
  have "warn_calls ?s = warn_calls (checkComponent warning_scope (x_foo 80))"
    by blast
  with first have 1: "warn_calls ?s = [(missing_message ''x-foo'', 80)]"
    by simp
  from missing_warning_once [of ?s] r have 2: "missing_count ''x-foo'' ?s \<le> 1"
    by blast
  from 1 2 show ?thesis by (intro conjI)
qed

lemma map_of_map_set_None:
  "map_of (map_set k v xs) t = None \<longleftrightarrow> (t \<noteq> k \<and> map_of xs t = None)"
  by (induction xs) (auto split: if_splits)

lemma checkComponent_unresolved:
  "map_of (componentsMap (checkComponent s n)) t = None \<longleftrightarrow> map_of (componentsMap s) t = None"
proof (cases "map_of (componentsMap s) (tagName n)")
  case None
  then show ?thesis by (simp add: checkComponent_def)
next
  case (Some d)
  then show ?thesis by (auto simp: checkComponent_def map_of_map_set_None)
qed

lemma checkComponent_options [simp]: "options (checkComponent s n) = options s"
  by (simp add: checkComponent_def split: option.splits)

lemma told_checkComponent: "told_missing t s \<Longrightarrow> told_missing t (checkComponent s n)"
  by (auto simp: told_missing_def checkComponent_def warn_calls_warn split: option.splits)

lemma told_check_all: "told_missing t s \<Longrightarrow> told_missing t (check_all s nodes)"
  unfolding check_all_def
  by (induction nodes arbitrary: s) (simp_all add: told_checkComponent)

lemma known_checkComponent:
  assumes "opt_warn (options s)" "t \<in> set (warned s) \<longrightarrow> told_missing t s"
  shows "t \<in> set (warned (checkComponent s n)) \<longrightarrow> told_missing t (checkComponent s n)"
  using assms
  by (auto simp: told_missing_def checkComponent_def warn_calls_warn split: option.splits)

lemma told_after_check:
  assumes "opt_warn (options s)" "t \<in> set (warned s) \<longrightarrow> told_missing t s"
    and "CHR ''-'' \<in> set t" "map_of (componentsMap s) t = None" "tagName n = t"
  shows "told_missing t (checkComponent s n)"
  using assms
  by (auto simp: told_missing_def checkComponent_def warn_calls_warn)

lemma check_all_tells:
  assumes "opt_warn (options s)" "t \<in> set (warned s) \<longrightarrow> told_missing t s"
    and "CHR ''-'' \<in> set t" "map_of (componentsMap s) t = None"
    and "n \<in> set nodes" "tagName n = t"
  shows "told_missing t (check_all s nodes)"
  using assms
proof (induction nodes arbitrary: s)
  case Nil
  then show ?case by simp
next
  case (Cons m ms)
  have step: "check_all s (m # ms) = check_all (checkComponent s m) ms"
    by (simp add: check_all_def)
  show ?case
  proof (cases "tagName m = t")
    case True
    from told_after_check [OF Cons.prems(1,2,3,4) True]
    show ?thesis unfolding step by (rule told_check_all)
  next
    case False
    with Cons.prems have "n \<in> set ms" by auto
    moreover have "opt_warn (options (checkComponent s m))" using Cons.prems(1) by simp
    moreover note known_checkComponent [OF Cons.prems(1,2), of m]
    moreover have "map_of (componentsMap (checkComponent s m)) t = None"
      using Cons.prems(4) by (simp add: checkComponent_unresolved)
    ultimately show ?thesis unfolding step
      using Cons.IH Cons.prems(3,6) by blast
  qed
qed

lemma with_removeUnused_fields [simp]:
  "warn_calls (with_removeUnused b s) = warn_calls s"
  "componentsMap (with_removeUnused b s) = componentsMap s"
  "opt_warn (options (with_removeUnused b s)) = opt_warn (options s)"
  "opt_removeUnusedImports (options (with_removeUnused b s)) = b"
  "runtime_import (with_removeUnused b s) = runtime_import s"
  "used_imports (with_removeUnused b s) = used_imports s"
  "after_imports qStr isIdentifier (with_removeUnused b s) = after_imports qStr isIdentifier s"
  by (simp_all add: with_removeUnused_def runtime_import_def used_imports_def after_imports_def
      getHelpersMap_def)

text \<open>
  Claim C8, as the code has it, for a scope with a \<open>warn\<close> callback. Checking
  element nodes tells the callback about every dashed tag that has no import (and was
  not reported before). \<open>compile\<close> returns its text under either setting of
  \<open>removeUnusedImports\<close> and tells the callback about every unused import under either
  setting, in the same order and with the same positions. The setting decides two
  things: whether the text of the warning ends in \<open>, skipping\<close>, and whether the line
  \<open>import * as <symbol> from <href>;\<close> of an unused import is in the output. With
  the option off every import has its line, with the option on the used imports alone;
  what stands before and after the import lines is the same.
\<close>

theorem unused_imports_warned_and_dropped:
  fixes s :: CompileScope and nodes :: "ENDElement list"
  assumes "opt_warn (options s)"
  shows "(\<forall>n\<in>set nodes.
            CHR ''-'' \<in> set (tagName n) \<and> map_of (componentsMap s) (tagName n) = None
              \<and> tagName n \<notin> set (warned s)
            \<longrightarrow> told_missing (tagName n) (check_all s nodes))
       \<and> (\<forall>b. warn_calls (fst (compile qStr isIdentifier (with_removeUnused b s)))
              = warn_calls s
                  @ map (\<lambda>e. (''Unused import '' @ DQ @ fst e @ DQ @ (if b then '', skipping'' else []),
                              node_pos (snd e)))
                      (unused_imports s))
       \<and> snd (compile qStr isIdentifier (with_removeUnused False s))
           = runtime_import s
               @ concat (map (\<lambda>e. ''import * as '' @ c_symbol (snd e) @ '' from ''
                                    @ qStr (Str (href (snd e))) @ '';'' @ NL)
                   (componentsMap s))
               @ after_imports qStr isIdentifier s
       \<and> snd (compile qStr isIdentifier (with_removeUnused True s))
           = runtime_import s
               @ concat (map (\<lambda>e. ''import * as '' @ c_symbol (snd e) @ '' from ''
                                    @ qStr (Str (href (snd e))) @ '';'' @ NL)
                   (used_imports s))
               @ after_imports qStr isIdentifier s"
proof (intro conjI ballI impI allI)
  fix n assume n: "n \<in> set nodes"
    and h: "CHR ''-'' \<in> set (tagName n) \<and> map_of (componentsMap s) (tagName n) = None
              \<and> tagName n \<notin> set (warned s)"
  from h have k: "tagName n \<in> set (warned s) \<longrightarrow> told_missing (tagName n) s" by simp
  from h have d: "CHR ''-'' \<in> set (tagName n)" and u: "map_of (componentsMap s) (tagName n) = None"
    by simp_all
  from check_all_tells [OF assms k d u n refl]
  show "told_missing (tagName n) (check_all s nodes)" .
next
  fix b
  show "warn_calls (fst (compile qStr isIdentifier (with_removeUnused b s)))
              = warn_calls s
                  @ map (\<lambda>e. (''Unused import '' @ DQ @ fst e @ DQ @ (if b then '', skipping'' else []),
                              node_pos (snd e)))
                      (unused_imports s)"
    using assms
    by (simp add: compile_result import_warnings_def unused_message_def unused_imports_def)
next
  show "snd (compile qStr isIdentifier (with_removeUnused False s))
           = runtime_import s
               @ concat (map (\<lambda>e. ''import * as '' @ c_symbol (snd e) @ '' from ''
                                    @ qStr (Str (href (snd e))) @ '';'' @ NL)
                   (componentsMap s))
               @ after_imports qStr isIdentifier s"
    by (simp add: compile_result import_line_def)
  show "snd (compile qStr isIdentifier (with_removeUnused True s))
           = runtime_import s
               @ concat (map (\<lambda>e. ''import * as '' @ c_symbol (snd e) @ '' from ''
                                    @ qStr (Str (href (snd e))) @ '';'' @ NL)
                   (used_imports s))
               @ after_imports qStr isIdentifier s"
    by (simp add: compile_result import_line_def)
qed


text \<open>
  An instance: two imports of which \<open>my-list\<close> is used, and the unresolved tag
  \<open>x-foo\<close> twice. The line of \<open>my-button\<close> is in the output with the option off
  and gone with it on.
\<close>

theorem unused_imports_warned_and_dropped_witness:
  "told_missing ''x-foo'' (check_all two_imports [my_list 70, x_foo 80, x_foo 90])
   \<and> warn_calls (fst (compile quote_str (\<lambda>_. True)
        (with_removeUnused True (check_all two_imports [my_list 70, x_foo 80, x_foo 90]))))
     = [(missing_message ''x-foo'', 80),
        (''Unused import '' @ DQ @ ''my-button'' @ DQ @ '', skipping'', 10)]
   \<and> warn_calls (fst (compile quote_str (\<lambda>_. True)
        (with_removeUnused False (check_all two_imports [my_list 70, x_foo 80, x_foo 90]))))
     = [(missing_message ''x-foo'', 80), (''Unused import '' @ DQ @ ''my-button'' @ DQ, 10)]
   \<and> snd (compile quote_str (\<lambda>_. True)
        (with_removeUnused False (check_all two_imports [my_list 70, x_foo 80, x_foo 90])))
     = ''import * as MyButton from '' @ DQ @ ''./my-button.html'' @ DQ @ '';'' @ NL
         @ ''import * as MyList from '' @ DQ @ ''./my-list.html'' @ DQ @ '';'' @ NL
   \<and> snd (compile quote_str (\<lambda>_. True)
        (with_removeUnused True (check_all two_imports [my_list 70, x_foo 80, x_foo 90])))
     = ''import * as MyList from '' @ DQ @ ''./my-list.html'' @ DQ @ '';'' @ NL"
proof -
  let ?nodes = "[my_list 70, x_foo 80, x_foo 90]"
  let ?s = "check_all two_imports ?nodes"
  have w0: "opt_warn (options two_imports)" by code_simp
  have w1: "opt_warn (options ?s)" by code_simp
  have mem: "x_foo 80 \<in> set ?nodes" by simp
  have pre: "CHR ''-'' \<in> set (tagName (x_foo 80))
      \<and> map_of (componentsMap two_imports) (tagName (x_foo 80)) = None
      \<and> tagName (x_foo 80) \<notin> set (warned two_imports)"
    by code_simp
  have tn: "tagName (x_foo 80) = ''x-foo''" by (simp add: x_foo_def)
  have log: "warn_calls ?s = [(missing_message ''x-foo'', 80)]" by code_simp
  have un: "map (\<lambda>e. (''Unused import '' @ DQ @ fst e @ DQ @ (if b then '', skipping'' else []),
                       node_pos (snd e))) (unused_imports ?s)
      = [(''Unused import '' @ DQ @ ''my-button'' @ DQ @ (if b then '', skipping'' else []), 10)]" for b
    by (cases b) code_simp+
  have ri: "runtime_import ?s = []" by code_simp
  have ai: "after_imports quote_str (\<lambda>_. True) ?s = []" by code_simp
  have la: "concat (map (\<lambda>e. ''import * as '' @ c_symbol (snd e) @ '' from ''
                                    @ quote_str (Str (href (snd e))) @ '';'' @ NL) (componentsMap ?s))
      = ''import * as MyButton from '' @ DQ @ ''./my-button.html'' @ DQ @ '';'' @ NL
         @ ''import * as MyList from '' @ DQ @ ''./my-list.html'' @ DQ @ '';'' @ NL"
    by code_simp
  have lu: "concat (map (\<lambda>e. ''import * as '' @ c_symbol (snd e) @ '' from ''
                                    @ quote_str (Str (href (snd e))) @ '';'' @ NL) (used_imports ?s))
      = ''import * as MyList from '' @ DQ @ ''./my-list.html'' @ DQ @ '';'' @ NL"
    by code_simp
  note a = unused_imports_warned_and_dropped [OF w0, of ?nodes, THEN conjunct1, rule_format, OF mem pre]
  note t = unused_imports_warned_and_dropped [OF w1, of "[]" quote_str "\<lambda>_. True"]
  note b = t [THEN conjunct2, THEN conjunct1, rule_format]
  note c = t [THEN conjunct2, THEN conjunct2, THEN conjunct1]
  note d = t [THEN conjunct2, THEN conjunct2, THEN conjunct2]
  from a have 1: "told_missing ''x-foo'' ?s" by (simp only: tn)
  from b [of True] have 2: "warn_calls (fst (compile quote_str (\<lambda>_. True) (with_removeUnused True ?s)))
     = [(missing_message ''x-foo'', 80),
        (''Unused import '' @ DQ @ ''my-button'' @ DQ @ '', skipping'', 10)]"
    by (simp only: log un) simp
  from b [of False] have 3: "warn_calls (fst (compile quote_str (\<lambda>_. True) (with_removeUnused False ?s)))
     = [(missing_message ''x-foo'', 80), (''Unused import '' @ DQ @ ''my-button'' @ DQ, 10)]"
    by (simp only: log un) simp
  from c have 4: "snd (compile quote_str (\<lambda>_. True) (with_removeUnused False ?s))
     = ''import * as MyButton from '' @ DQ @ ''./my-button.html'' @ DQ @ '';'' @ NL
         @ ''import * as MyList from '' @ DQ @ ''./my-list.html'' @ DQ @ '';'' @ NL"
    by (simp only: ri ai la) simp
  from d have 5: "snd (compile quote_str (\<lambda>_. True) (with_removeUnused True ?s))
     = ''import * as MyList from '' @ DQ @ ''./my-list.html'' @ DQ @ '';'' @ NL"
    by (simp only: ri ai lu) simp
  from 1 2 3 4 5 show ?thesis by (intro conjI)
qed


text \<open>
  Claim C8 as stated fails: the option changes more than the import line. The warnings
  the callback receives for the same unused imports differ in their text.
\<close>

theorem unused_warning_text_differs:
  "warn_calls (fst (compile quote_str (\<lambda>_. True) (with_removeUnused False two_imports)))
     = [(''Unused import '' @ DQ @ ''my-button'' @ DQ, 10),
        (''Unused import '' @ DQ @ ''my-list'' @ DQ, 50)]
   \<and> warn_calls (fst (compile quote_str (\<lambda>_. True) (with_removeUnused True two_imports)))
     = [(''Unused import '' @ DQ @ ''my-button'' @ DQ @ '', skipping'', 10),
        (''Unused import '' @ DQ @ ''my-list'' @ DQ @ '', skipping'', 50)]
   \<and> warn_calls (fst (compile quote_str (\<lambda>_. True) (with_removeUnused False two_imports)))
     \<noteq> warn_calls (fst (compile quote_str (\<lambda>_. True) (with_removeUnused True two_imports)))"
  by code_simp

section \<open>Name tokens\<close>

lemma scanWord_takeWhile:
  "scanWord isC xs pos = pos + length (takeWhile (continues isC) xs)"
  by (induction xs arbitrary: pos) (simp_all add: continues_def)

lemma take_takeWhile_length: "take (length (takeWhile P xs)) xs = takeWhile P xs"
  by (induction xs) simp_all

lemma end_readWord_word:
  assumes "pos < length input"
  shows "end_readWord isC input pos =
           (Suc pos + length (takeWhile (continues isC) (drop (Suc pos) input)),
            input ! pos # takeWhile (continues isC) (drop (Suc pos) input))"
proof -
  let ?n = "length (takeWhile (continues isC) (drop (Suc pos) input))"
  have "slice input pos (Suc pos + ?n) = take (Suc ?n) (drop pos input)"
    by (simp add: slice_def)
  also have "drop pos input = input ! pos # drop (Suc pos) input"
    using assms by (simp add: Cons_nth_drop_Suc)
  also have "take (Suc ?n) (input ! pos # drop (Suc pos) input)
      = input ! pos # takeWhile (continues isC) (drop (Suc pos) input)"
    by (simp add: take_takeWhile_length)
  finally show ?thesis
    by (simp add: end_readWord_def Let_def scanWord_takeWhile)
qed

lemma takeWhile_maximal:
  "length (takeWhile P xs) = length xs \<or> \<not> P (xs ! length (takeWhile P xs))"
  by (induction xs) auto

text \<open>
  Claim C7, as the code has it. At a position inside the input, \<open>readToken\<close> finishes
  one name token when the character there is an identifier-start character, \<open>#\<close> (35)
  or \<open>@\<close> (64): the token is that character followed by the maximal run of identifier
  characters and \<open>-\<close> (45), and it ends at the end of the input or in front of the first
  character that is neither. Every other character, a leading \<open>-\<close> among them, is handed
  to the tokenizer of the base class. Whether a \<open>#\<close> or \<open>@\<close> begins a word is decided
  wherever a token begins, so after a word that ends in front of one the next token is a
  name that starts with the sigil.
\<close>

theorem readToken_word:
  fixes isIdentifierStart isIdentifierChar :: "nat \<Rightarrow> bool" and input :: "nat list" and pos code :: nat
  assumes "pos < length input"
  defines "run \<equiv> takeWhile (continues isIdentifierChar) (drop (Suc pos) input)"
  shows "(isIdentifierStart code \<or> code = 35 \<or> code = 64 \<longrightarrow>
            readToken isIdentifierStart isIdentifierChar input pos code
              = Name (Suc pos + length run) (input ! pos # run)
            \<and> (\<forall>ch\<in>set run. isIdentifierChar ch \<or> ch = 45)
            \<and> (Suc pos + length run = length input
                 \<or> \<not> (isIdentifierChar (input ! (Suc pos + length run))
                        \<or> input ! (Suc pos + length run) = 45)))
       \<and> (\<not> (isIdentifierStart code \<or> code = 35 \<or> code = 64) \<longrightarrow>
            readToken isIdentifierStart isIdentifierChar input pos code = Super)"
proof (intro conjI impI)
  assume c: "isIdentifierStart code \<or> code = 35 \<or> code = 64"
  then show "readToken isIdentifierStart isIdentifierChar input pos code
              = Name (Suc pos + length run) (input ! pos # run)"
    using end_readWord_word [OF assms(1), of isIdentifierChar]
    by (simp add: readToken_def run_def)
  show "\<forall>ch\<in>set run. isIdentifierChar ch \<or> ch = 45"
    unfolding run_def using set_takeWhileD [of _ "continues isIdentifierChar"]
    by (auto simp: continues_def)
  have le: "length run \<le> length (drop (Suc pos) input)"
    unfolding run_def by (rule length_takeWhile_le)
  from takeWhile_maximal [of "continues isIdentifierChar" "drop (Suc pos) input"]
  have m: "length run = length (drop (Suc pos) input)
      \<or> \<not> continues isIdentifierChar (drop (Suc pos) input ! length run)"
    unfolding run_def .
  show "Suc pos + length run = length input
                 \<or> \<not> (isIdentifierChar (input ! (Suc pos + length run))
                        \<or> input ! (Suc pos + length run) = 45)"
  proof (cases "Suc pos + length run = length input")
    case True
    then show ?thesis by simp
  next
    case False
    with assms(1) have ne: "length run \<noteq> length (drop (Suc pos) input)" by auto
    with le False assms(1) have "Suc pos + length run < length input" by simp
    then have "drop (Suc pos) input ! length run = input ! (Suc pos + length run)"
      by simp
    with m ne show ?thesis by (simp add: continues_def)
  qed
next
  assume "\<not> (isIdentifierStart code \<or> code = 35 \<or> code = 64)"
  then show "readToken isIdentifierStart isIdentifierChar input pos code = Super"
    by (simp add: readToken_def)
qed

text \<open>
  Instances: \<open>#ref-name\<close> and \<open>foo-bar\<close> are one name token each, and the \<open>-\<close> of
  \<open>-3\<close> goes to the base tokenizer.
\<close>

theorem readToken_word_witness:
  "readToken ascii_isIdentifierStart ascii_isIdentifierChar (codes ''#ref-name + 1'') 0 35
     = Name 9 (codes ''#ref-name'')
   \<and> readToken ascii_isIdentifierStart ascii_isIdentifierChar (codes ''foo-bar'') 0 102
     = Name 7 (codes ''foo-bar'')
   \<and> readToken ascii_isIdentifierStart ascii_isIdentifierChar (codes ''-3'') 0 45 = Super"
proof -
  have l1: "0 < length (codes ''#ref-name + 1'')" by (simp add: codes_def)
  have l2: "0 < length (codes ''foo-bar'')" by (simp add: codes_def)
  have l3: "0 < length (codes ''-3'')" by (simp add: codes_def)
  have r1: "takeWhile (continues ascii_isIdentifierChar) (drop (Suc 0) (codes ''#ref-name + 1''))
      = codes ''ref-name''"
    by code_simp
  have r2: "takeWhile (continues ascii_isIdentifierChar) (drop (Suc 0) (codes ''foo-bar''))
      = codes ''oo-bar''"
    by code_simp
  have h1: "codes ''#ref-name + 1'' ! 0 # codes ''ref-name'' = codes ''#ref-name''"
    by code_simp
  have h2: "codes ''foo-bar'' ! 0 # codes ''oo-bar'' = codes ''foo-bar''"
    by code_simp
  have s2: "ascii_isIdentifierStart 102" by code_simp
  have s3: "\<not> (ascii_isIdentifierStart 45 \<or> (45::nat) = 35 \<or> (45::nat) = 64)" by code_simp
  from readToken_word [OF l1, of ascii_isIdentifierStart 35 ascii_isIdentifierChar]
  have "readToken ascii_isIdentifierStart ascii_isIdentifierChar (codes ''#ref-name + 1'') 0 35
     = Name (Suc 0 + length (codes ''ref-name'')) (codes ''#ref-name + 1'' ! 0 # codes ''ref-name'')"
    unfolding r1 by simp
  then have 1: "readToken ascii_isIdentifierStart ascii_isIdentifierChar (codes ''#ref-name + 1'') 0 35
     = Name 9 (codes ''#ref-name'')"
    unfolding h1 by (simp add: codes_def)
  from readToken_word [OF l2, of ascii_isIdentifierStart 102 ascii_isIdentifierChar] s2
  have "readToken ascii_isIdentifierStart ascii_isIdentifierChar (codes ''foo-bar'') 0 102
     = Name (Suc 0 + length (codes ''oo-bar'')) (codes ''foo-bar'' ! 0 # codes ''oo-bar'')"
    unfolding r2 by simp
  then have 2: "readToken ascii_isIdentifierStart ascii_isIdentifierChar (codes ''foo-bar'') 0 102
     = Name 7 (codes ''foo-bar'')"
    unfolding h2 by (simp add: codes_def)
  from readToken_word [OF l3, of ascii_isIdentifierStart 45 ascii_isIdentifierChar] s3
  have 3: "readToken ascii_isIdentifierStart ascii_isIdentifierChar (codes ''-3'') 0 45 = Super"
    by blast
  from 1 2 3 show ?thesis by (intro conjI)
qed

text \<open>
  Claim C7 as stated fails on \<open>a#b\<close>: the word \<open>a\<close> ends in front of the \<open>#\<close>, the
  next token begins there, and it is the name \<open>#b\<close>.
\<close>

theorem sigil_after_word:
  "readToken ascii_isIdentifierStart ascii_isIdentifierChar (codes ''a#b'') 0 97 = Name 1 (codes ''a'')
   \<and> readToken ascii_isIdentifierStart ascii_isIdentifierChar (codes ''a#b'') 1 35 = Name 3 (codes ''#b'')
   \<and> words ascii_isIdentifierStart ascii_isIdentifierChar (codes ''a#b'') 0 = [codes ''a'', codes ''#b'']"
  by code_simp

end
